theory Spec2Isabelle
  imports Main
begin

section \<open>Python values used by the parser\<close>

text \<open>
  A Python \<open>str\<close> is modelled as a HOL \<open>string\<close>. A HOL character has eight bits and
  stands for the code point of the same number (U+0000 to U+00FF); the character
  classes below are those of Python on that range.
\<close>

text \<open>\<open>c.isspace()\<close>, the separator set of \<open>str.split()\<close> without arguments.\<close>

definition isspace :: "char \<Rightarrow> bool" where
  "isspace c = (c \<in> set [CHR 0x09, CHR 0x0A, CHR 0x0B, CHR 0x0C, CHR 0x0D,
                          CHR 0x1C, CHR 0x1D, CHR 0x1E, CHR 0x1F, CHR 0x20,
                          CHR 0x85, CHR 0xA0])"

text \<open>The ASCII decimal digits, the characters \<open>int()\<close> converts.\<close>

definition ascii_digit :: "char \<Rightarrow> bool" where
  "ascii_digit c = (c \<in> set ''0123456789'')"

text \<open>
  \<open>c.isdigit()\<close>: besides the ASCII digits it holds for the superscript digits
  U+00B2, U+00B3 and U+00B9.
\<close>

definition isdigit :: "char \<Rightarrow> bool" where
  "isdigit c = (ascii_digit c \<or> c \<in> set [CHR 0xB2, CHR 0xB3, CHR 0xB9])"

text \<open>\<open>s.isdigit()\<close> on a string: false on the empty string.\<close>

definition str_isdigit :: "string \<Rightarrow> bool" where
  "str_isdigit s = (s \<noteq> [] \<and> list_all isdigit s)"

text \<open>\<open>s.split()\<close>: maximal runs of non-whitespace characters, in order.\<close>

fun split_acc :: "string \<Rightarrow> string \<Rightarrow> string list" where
  "split_acc [] cur = (if cur = [] then [] else [cur])"
| "split_acc (c # cs) cur =
     (if isspace c then (if cur = [] then split_acc cs [] else cur # split_acc cs [])
      else split_acc cs (cur @ [c]))"

definition split_ws :: "string \<Rightarrow> string list" where
  "split_ws s = split_acc s []"

text \<open>\<open>s.split(sep)\<close> for a one-character separator: empty fields are kept.\<close>

fun split_on_acc :: "char \<Rightarrow> string \<Rightarrow> string \<Rightarrow> string list" where
  "split_on_acc sep [] cur = [cur]"
| "split_on_acc sep (c # cs) cur =
     (if c = sep then cur # split_on_acc sep cs [] else split_on_acc sep cs (cur @ [c]))"

definition split_on :: "char \<Rightarrow> string \<Rightarrow> string list" where
  "split_on sep s = split_on_acc sep s []"

text \<open>\<open>s.split(sep, 1)\<close>: at most one cut, at the first separator.\<close>

definition split_once :: "char \<Rightarrow> string \<Rightarrow> string list" where
  "split_once sep s =
     (if sep \<in> set s then [takeWhile (\<lambda>c. c \<noteq> sep) s, tl (dropWhile (\<lambda>c. c \<noteq> sep) s)]
      else [s])"

text \<open>\<open>" ".join(xs)\<close>.\<close>

fun join_sp :: "string list \<Rightarrow> string" where
  "join_sp [] = []"
| "join_sp [x] = x"
| "join_sp (x # y # ys) = x @ '' '' @ join_sp (y # ys)"

text \<open>\<open>s.lstrip(chars)\<close>, \<open>s.rstrip(chars)\<close>, \<open>s.strip(chars)\<close>: every leading
  (trailing) character that occurs in \<open>chars\<close> is removed.\<close>

definition lstrip :: "string \<Rightarrow> string \<Rightarrow> string" where
  "lstrip chars s = dropWhile (\<lambda>c. c \<in> set chars) s"

definition rstrip :: "string \<Rightarrow> string \<Rightarrow> string" where
  "rstrip chars s = rev (dropWhile (\<lambda>c. c \<in> set chars) (rev s))"

definition strip :: "string \<Rightarrow> string \<Rightarrow> string" where
  "strip chars s = rstrip chars (lstrip chars s)"

definition startswith :: "string \<Rightarrow> string \<Rightarrow> bool" where
  "startswith s pre = (take (length pre) s = pre)"

definition endswith :: "string \<Rightarrow> string \<Rightarrow> bool" where
  "endswith s suf = (length suf \<le> length s \<and> drop (length s - length suf) s = suf)"

text \<open>The exceptions the parser can meet.\<close>

datatype py_exc = KeyError string | IndexError | ValueError | TypeError | AttributeError

text \<open>Sequencing of a computation that may raise.\<close>

definition exc_bind :: "py_exc + 'a \<Rightarrow> ('a \<Rightarrow> py_exc + 'b) \<Rightarrow> py_exc + 'b" where
  "exc_bind m f = (case m of Inl e \<Rightarrow> Inl e | Inr x \<Rightarrow> f x)"

text \<open>\<open>xs[i]\<close> for an index \<open>i \<ge> 0\<close>: IndexError out of range.\<close>

definition item :: "'a list \<Rightarrow> nat \<Rightarrow> py_exc + 'a" where
  "item xs i = (if i < length xs then Inr (xs ! i) else Inl IndexError)"

text \<open>
  \<open>int(s)\<close> at its one call site, where \<open>s\<close> has passed \<open>is_status_code\<close> (three
  characters with \<open>isdigit\<close>): the decimal value when all are ASCII digits, ValueError
  when one is a superscript digit.
\<close>

definition digit_val :: "char \<Rightarrow> int" where
  "digit_val c = int (of_char c) - 48"

definition decimal_value :: "string \<Rightarrow> int" where
  "decimal_value s = foldl (\<lambda>n c. 10 * n + digit_val c) 0 s"

definition py_int :: "string \<Rightarrow> py_exc + int" where
  "py_int s = (if s \<noteq> [] \<and> list_all ascii_digit s
               then Inr (decimal_value s) else Inl ValueError)"

text \<open>\<open>pairwise\<close>: \<open>s -> (s0,s1), (s1,s2), (s2,s3), ...\<close>\<close>

definition pairwise :: "'a list \<Rightarrow> ('a \<times> 'a) list" where
  "pairwise xs = zip xs (tl xs)"

text \<open>
  A \<open>datetime\<close> is an instant in microseconds, offset-aware or naive. The values kept
  in a transaction's dict are strings, lists of strings and datetimes.
\<close>

datatype datetime = Aware int | Naive int

datatype pyval = Str string | StrList "string list" | DT datetime

text \<open>
  A \<open>dict\<close> with string keys, in insertion order: assigning to a present key keeps its
  place, a new key goes to the end.
\<close>

type_synonym 'v dict = "(string \<times> 'v) list"

definition dict_get :: "'v dict \<Rightarrow> string \<Rightarrow> 'v option" where
  "dict_get d k = map_of d k"

fun dict_set :: "'v dict \<Rightarrow> string \<Rightarrow> 'v \<Rightarrow> 'v dict" where
  "dict_set [] k v = [(k, v)]"
| "dict_set ((k', v') # d) k v = (if k' = k then (k, v) # d else (k', v') # dict_set d k v)"

definition dict_del :: "'v dict \<Rightarrow> string \<Rightarrow> 'v dict" where
  "dict_del d k = filter (\<lambda>(k', v). k' \<noteq> k) d"

text \<open>\<open>d[k]\<close>: KeyError when the key is absent.\<close>

definition getitem :: "'v dict \<Rightarrow> string \<Rightarrow> py_exc + 'v" where
  "getitem d k = (case dict_get d k of None \<Rightarrow> Inl (KeyError k) | Some v \<Rightarrow> Inr v)"

type_synonym entry = "pyval dict"


text \<open>\<open>list(dict.fromkeys(xs))\<close>: the distinct elements of \<open>xs\<close>, each at its first place.\<close>

fun fromkeys :: "'a list \<Rightarrow> 'a list \<Rightarrow> 'a list" where
  "fromkeys keys [] = keys"
| "fromkeys keys (x # xs) = fromkeys (if x \<in> set keys then keys else keys @ [x]) xs"

section \<open>PostfixEvent\<close>

record PostfixEvent =
  timestamp :: pyval
  queue_id :: string
  domain_from :: string
  domains_to :: "string list"
  message_from :: string
  message_to :: "string list"
  message_id :: string
  message_subject :: "pyval option"
  status :: pyval
  status_code :: "int option"
  status_postfix_code :: "string option"
  status_description :: string
  raw_log :: pyval
  dovecot_fileinto_action :: "pyval option"
  client :: "pyval option"
  orig_to :: "pyval option"
  delay :: "pyval option"
  delays :: "pyval option"
  dsn :: "pyval option"
  nrcpt :: "pyval option"
  relay :: "pyval option"
  size_attr :: "pyval option"

definition get_domain :: "string \<Rightarrow> string" where
  "get_domain mail =
     (let tokens = split_once CHR ''@'' mail in
      if length tokens = 2 then tokens ! 1 else mail)"

definition is_status_code :: "string \<Rightarrow> bool" where
  "is_status_code s = (length s = 3 \<and> list_all isdigit s)"

definition is_postfix_status_code :: "string \<Rightarrow> bool" where
  "is_postfix_status_code s =
     (let tokens = split_on CHR ''.'' s in
      length tokens = 3 \<and> list_all str_isdigit tokens)"

text \<open>
  The loop of \<open>parse_status_code\<close> over the adjacent pairs; the accumulator holds the
  attributes \<open>status_code\<close> and \<open>status_postfix_code\<close>, unset at first. A pair that
  qualifies assigns both and the loop goes on.
\<close>

fun parse_status_code_loop ::
  "(string \<times> string) list \<Rightarrow> int option \<times> string option
     \<Rightarrow> py_exc + (int option \<times> string option)" where
  "parse_status_code_loop [] acc = Inr acc"
| "parse_status_code_loop ((st, postfix) # ps) acc =
     (if \<not> is_status_code st \<or> \<not> is_postfix_status_code postfix
      then parse_status_code_loop ps acc
      else exc_bind (py_int st) (\<lambda>n. parse_status_code_loop ps (Some n, Some postfix)))"

text \<open>\<open>self.status_description.split()\<close> exists on a \<open>str\<close> only.\<close>

definition parse_status_code :: "pyval \<Rightarrow> py_exc + (int option \<times> string option)" where
  "parse_status_code description =
     (case description of
        Str d \<Rightarrow> parse_status_code_loop (pairwise (split_ws d)) (None, None)
      | _ \<Rightarrow> Inl AttributeError)"

text \<open>\<open>v.strip(chars)\<close> on a dict value: only a \<open>str\<close> has the method.\<close>

definition str_strip :: "string \<Rightarrow> pyval \<Rightarrow> py_exc + string" where
  "str_strip chars v = (case v of Str s \<Rightarrow> Inr (strip chars s) | _ \<Rightarrow> Inl AttributeError)"

text \<open>\<open>[mail.strip("<>") for mail in v]\<close>: a \<open>str\<close> iterates over its characters, a
  datetime is not iterable.\<close>

definition strip_each :: "pyval \<Rightarrow> py_exc + string list" where
  "strip_each v =
     (case v of
        StrList xs \<Rightarrow> Inr (map (strip ''<>'') xs)
      | Str s \<Rightarrow> Inr (map (\<lambda>c. strip ''<>'' [c]) s)
      | DT d \<Rightarrow> Inl TypeError)"

text \<open>\<open>PostfixEvent.__init__\<close>; \<open>Inl\<close> is the exception it raises.\<close>

definition PostfixEvent_init :: "string \<Rightarrow> entry \<Rightarrow> py_exc + PostfixEvent" where
  "PostfixEvent_init qid obj =
     exc_bind (getitem obj ''timestamp'') (\<lambda>ts.
     exc_bind (exc_bind (getitem obj ''from'') (str_strip ''<>'')) (\<lambda>mfrom.
     exc_bind (exc_bind (getitem obj ''to'') strip_each) (\<lambda>mto.
     exc_bind (exc_bind (getitem obj ''message-id'') (str_strip ''<>'')) (\<lambda>mid.
     exc_bind (getitem obj ''status'') (\<lambda>st.
     exc_bind (getitem obj ''status_description'') (\<lambda>descr.
     exc_bind (getitem obj ''raw_log'') (\<lambda>raw.
     exc_bind (parse_status_code descr) (\<lambda>(code, pcode).
       Inr \<lparr> timestamp = ts, queue_id = qid,
             domain_from = get_domain mfrom,
             domains_to = fromkeys [] (map get_domain mto),
             message_from = mfrom, message_to = mto, message_id = mid,
             message_subject = dict_get obj ''subject'',
             status = st, status_code = code, status_postfix_code = pcode,
             status_description = (case descr of Str d \<Rightarrow> d | _ \<Rightarrow> []),
             raw_log = raw,
             dovecot_fileinto_action = dict_get obj ''dovecot_fileinto_action'',
             client = dict_get obj ''client'', orig_to = dict_get obj ''orig_to'',
             delay = dict_get obj ''delay'', delays = dict_get obj ''delays'',
             dsn = dict_get obj ''dsn'', nrcpt = dict_get obj ''nrcpt'',
             relay = dict_get obj ''relay'', size_attr = dict_get obj ''size'' \<rparr>))))))))"

section \<open>PostfixLogParser\<close>

text \<open>
  The parser's attributes, with the two callbacks as the lists of what they were called
  with: \<open>events\<close> for \<open>on_event\<close> and \<open>faults\<close> for \<open>on_fault\<close>. Times are in
  microseconds. \<open>cleanup_interval\<close> is set once in \<open>__init__\<close> and never assigned again,
  so it is a constant here.
\<close>

record parser =
  state :: "entry dict"
  next_cleanup :: int
  events :: "PostfixEvent list"
  faults :: "(string \<times> py_exc) list"

definition OLD_LOGS :: int where
  "OLD_LOGS = 10 * 60 * 1000000"

definition cleanup_interval :: int where
  "cleanup_interval = 1 * 60 * 1000000"

text \<open>
  The library functions the parser calls: \<open>datetime.datetime.fromisoformat\<close> (\<open>None\<close>
  is its ValueError) and the decoding of an encoded subject word,
  \<open>decode_header(t)[0]\<close> followed by \<open>subject.decode(encoding)\<close>.
\<close>

record lib =
  fromisoformat :: "string \<Rightarrow> datetime option"
  decode_subject :: "string \<Rightarrow> py_exc + string"

text \<open>\<open>__init__\<close>, with the reading of \<open>now()\<close> as argument.\<close>

definition PostfixLogParser_init :: "int \<Rightarrow> parser" where
  "PostfixLogParser_init ts =
     \<lparr> state = [], next_cleanup = ts + cleanup_interval, events = [], faults = [] \<rparr>"

definition is_queue_id :: "string \<Rightarrow> bool" where
  "is_queue_id maybe_queue_id =
     (if length maybe_queue_id \<noteq> 11 + 1 then False
      else list_all (\<lambda>c. c \<in> set ''0123456789ABCDEF'') (butlast maybe_queue_id))"

text \<open>
  \<open>ts - val["timestamp"]\<close> with \<open>ts\<close> offset-aware: KeyError without the key, TypeError
  when the value is a naive datetime or no datetime at all.
\<close>

definition age :: "int \<Rightarrow> entry \<Rightarrow> py_exc + int" where
  "age ts val =
     exc_bind (getitem val ''timestamp'')
       (\<lambda>v. case v of DT (Aware t) \<Rightarrow> Inr (ts - t) | _ \<Rightarrow> Inl TypeError)"

text \<open>The dict comprehension of the sweep: the records younger than \<open>OLD_LOGS\<close>.\<close>

fun keep_fresh :: "int \<Rightarrow> entry dict \<Rightarrow> py_exc + entry dict" where
  "keep_fresh ts [] = Inr []"
| "keep_fresh ts ((key, val) # rest) =
     exc_bind (age ts val) (\<lambda>a.
     exc_bind (keep_fresh ts rest) (\<lambda>r.
       Inr (if a < OLD_LOGS then (key, val) # r else r)))"

text \<open>
  \<open>_cleanup_old_entities\<close>; the second component is the exception that leaves the
  function, raised after \<open>next_cleanup\<close> has been assigned.
\<close>

definition cleanup_old_entities :: "int \<Rightarrow> parser \<Rightarrow> parser \<times> py_exc option" where
  "cleanup_old_entities ts p =
     (if next_cleanup p > ts then (p, None)
      else let p1 = p\<lparr>next_cleanup := ts + cleanup_interval\<rparr> in
           (case keep_fresh ts (state p1) of
              Inl e \<Rightarrow> (p1, Some e)
            | Inr st \<Rightarrow> (p1\<lparr>state := st\<rparr>, None)))"

text \<open>
  The loop of \<open>_set_fields\<close>: \<open>idx\<close> counts the tokens, \<open>status_idx\<close> is the index of the
  last token named \<open>status\<close>. The entry is changed in place, so the entry as it is when
  an exception is raised is returned with it. \<open>entry.get("to", []) + [value]\<close> needs a
  list on the left.
\<close>

fun set_fields_loop ::
  "string list \<Rightarrow> nat \<Rightarrow> nat option \<Rightarrow> entry \<Rightarrow> entry \<times> (py_exc + nat option)" where
  "set_fields_loop [] idx status_idx e = (e, Inr status_idx)"
| "set_fields_loop (token # rest) idx status_idx e =
     (if CHR ''='' \<in> set token then
        (let parts = split_once CHR ''='' token;
             name = parts ! 0;
             val = rstrip '','' (parts ! 1);
             status_idx' = (if name = ''status'' then Some idx else status_idx)
         in if name = ''to'' then
              (case dict_get e name of
                 None \<Rightarrow>
                   set_fields_loop rest (idx + 1) status_idx' (dict_set e name (StrList [val]))
               | Some (StrList xs) \<Rightarrow>
                   set_fields_loop rest (idx + 1) status_idx'
                     (dict_set e name (StrList (xs @ [val])))
               | Some _ \<Rightarrow> (e, Inl TypeError))
            else set_fields_loop rest (idx + 1) status_idx' (dict_set e name (Str val)))
      else set_fields_loop rest (idx + 1) status_idx e)"

text \<open>\<open>_set_fields\<close>; \<open>if status_idx:\<close> is false for \<open>None\<close> and for index 0.\<close>

definition set_fields :: "entry \<Rightarrow> string list \<Rightarrow> entry \<times> py_exc option" where
  "set_fields e tokens =
     (case set_fields_loop tokens 0 None e of
        (e1, Inl ex) \<Rightarrow> (e1, Some ex)
      | (e1, Inr status_idx) \<Rightarrow>
          (case status_idx of
             None \<Rightarrow> (e1, None)
           | Some i \<Rightarrow>
               if i = 0 then (e1, None)
               else (dict_set e1 ''status_description''
                       (Str (rstrip '')'' (lstrip ''('' (join_sp (drop (i + 1) tokens))))),
                     None)))"

text \<open>\<open>tokens[i] == s\<close>, and Python's short-circuit \<open>and\<close> over conditions that may raise.\<close>

definition item_is :: "string list \<Rightarrow> nat \<Rightarrow> string \<Rightarrow> py_exc + bool" where
  "item_is tokens i s = exc_bind (item tokens i) (\<lambda>t. Inr (t = s))"

definition py_and :: "py_exc + bool \<Rightarrow> py_exc + bool \<Rightarrow> py_exc + bool" where
  "py_and a b = exc_bind a (\<lambda>x. if x then b else Inr False)"

text \<open>The loop that collects a literal subject, up to the pair \<open>from\<close>, \<open>...;\<close>.\<close>

fun subject_tokens :: "(string \<times> string) list \<Rightarrow> string list" where
  "subject_tokens [] = []"
| "subject_tokens ((token1, token2) # ps) =
     (if token1 = ''from'' \<and> endswith token2 '';'' then [] else token1 # subject_tokens ps)"

text \<open>
  \<open>self.state[queue_id][k] = v\<close>. At both places where the parser subscripts
  \<open>self.state\<close> the key has just been inserted by \<open>setdefault\<close>, so the lookup is that
  of a plain dict.
\<close>

definition set_record_field ::
  "entry dict \<Rightarrow> string \<Rightarrow> string \<Rightarrow> pyval \<Rightarrow> entry dict \<times> py_exc option" where
  "set_record_field st qid k v =
     (case dict_get st qid of
        None \<Rightarrow> (st, Some (KeyError qid))
      | Some e \<Rightarrow> (dict_set st qid (dict_set e k v), None))"

definition try_to_parse_subject ::
  "lib \<Rightarrow> string \<Rightarrow> string list \<Rightarrow> entry dict \<Rightarrow> entry dict \<times> (py_exc + bool)" where
  "try_to_parse_subject L qid tokens st =
     (case py_and (item_is tokens 0 ''warning:'')
             (py_and (item_is tokens 1 ''header'') (item_is tokens 2 ''Subject:'')) of
        Inl e \<Rightarrow> (st, Inl e)
      | Inr False \<Rightarrow> (st, Inr False)
      | Inr True \<Rightarrow>
          (case item tokens 3 of
             Inl e \<Rightarrow> (st, Inl e)
           | Inr t3 \<Rightarrow>
               (case (if startswith t3 ''=?UTF-8'' then decode_subject L t3
                      else Inr (join_sp (subject_tokens (pairwise (drop 3 tokens))))) of
                  Inl e \<Rightarrow> (st, Inl e)
                | Inr subj \<Rightarrow>
                    (case set_record_field st qid ''subject'' (Str subj) of
                       (st1, Some e) \<Rightarrow> (st1, Inl e)
                     | (st1, None) \<Rightarrow> (st1, Inr True)))))"

definition handle_special_postfix_cases ::
  "lib \<Rightarrow> string \<Rightarrow> string list \<Rightarrow> parser \<Rightarrow> parser \<times> (py_exc + bool)" where
  "handle_special_postfix_cases L qid tokens p =
     (case item_is tokens 0 ''removed'' of
        Inl e \<Rightarrow> (p, Inl e)
      | Inr True \<Rightarrow>
          (case exc_bind (getitem (state p) qid) (PostfixEvent_init qid) of
             Inl e \<Rightarrow> (p, Inl e)
           | Inr event \<Rightarrow>
               (p\<lparr>state := dict_del (state p) qid, events := events p @ [event]\<rparr>, Inr True))
      | Inr False \<Rightarrow>
          (case try_to_parse_subject L qid tokens (state p) of
             (st, r) \<Rightarrow> (p\<lparr>state := st\<rparr>, r)))"

text \<open>The action of a sieve line on one record of the store.\<close>

definition attach_action :: "string \<Rightarrow> string \<Rightarrow> string \<times> entry \<Rightarrow> string \<times> entry" where
  "attach_action msgid action kv =
     (if dict_get (snd kv) ''message-id'' = Some (Str msgid)
      then (fst kv, dict_set (snd kv) ''dovecot_fileinto_action'' (Str action))
      else kv)"

text \<open>The condition of \<open>_handle_dovecot_case\<close>, evaluated from left to right.\<close>

definition sieve_line :: "string list \<Rightarrow> py_exc + bool" where
  "sieve_line tokens =
     py_and (item_is tokens 4 ''Info:'')
       (py_and (item_is tokens 5 ''sieve:'')
       (py_and (exc_bind (item tokens 6) (\<lambda>t. Inr (startswith t ''msgid='')))
       (py_and (item_is tokens 7 ''fileinto'') (item_is tokens 8 ''action:''))))"

definition handle_dovecot_case ::
  "string list \<Rightarrow> entry dict \<Rightarrow> entry dict \<times> (py_exc + bool)" where
  "handle_dovecot_case tokens st =
     (case sieve_line tokens of
        Inl e \<Rightarrow> (st, Inl e)
      | Inr False \<Rightarrow> (st, Inr False)
      | Inr True \<Rightarrow>
          (let msgid = butlast (split_once CHR ''='' (tokens ! 6) ! 1)
           in (map (attach_action msgid (join_sp (drop 9 tokens))) st, Inr False)))"

text \<open>\<open>d.setdefault(k, v)\<close>, and the two branches that record the raw line.\<close>

definition dict_setdefault :: "'v dict \<Rightarrow> string \<Rightarrow> 'v \<Rightarrow> 'v dict" where
  "dict_setdefault d k v = (if dict_get d k = None then d @ [(k, v)] else d)"

definition append_raw_log :: "entry \<Rightarrow> string \<Rightarrow> py_exc + entry" where
  "append_raw_log e s =
     (case dict_get e ''raw_log'' of
        None \<Rightarrow> Inr (dict_set e ''raw_log'' (StrList [s]))
      | Some (StrList xs) \<Rightarrow> Inr (dict_set e ''raw_log'' (StrList (xs @ [s])))
      | Some _ \<Rightarrow> Inl AttributeError)"

text \<open>
  The body of the \<open>try\<close> statement of \<open>feed_line\<close>; the second component is the exception
  that reaches the \<open>except\<close> clause, with the parser as the body left it.
\<close>

definition feed_line_body :: "lib \<Rightarrow> string \<Rightarrow> parser \<Rightarrow> parser \<times> py_exc option" where
  "feed_line_body L s p =
     (let tokens = split_ws s in
      if length tokens < 5 then (p, None)
      else
        (case handle_dovecot_case tokens (state p) of
           (st1, Inl e) \<Rightarrow> (p\<lparr>state := st1\<rparr>, Some e)
         | (st1, Inr True) \<Rightarrow> (p\<lparr>state := st1\<rparr>, None)
         | (st1, Inr False) \<Rightarrow>
             (case fromisoformat L (tokens ! 0) of
                None \<Rightarrow> (p\<lparr>state := st1\<rparr>, None)
              | Some tstamp \<Rightarrow>
                  if \<not> is_queue_id (tokens ! 3) then (p\<lparr>state := st1\<rparr>, None)
                  else
                    (let qid = butlast (tokens ! 3);
                         st2 = dict_setdefault st1 qid []
                     in (case getitem st2 qid of
                           Inl e \<Rightarrow> (p\<lparr>state := st2\<rparr>, Some e)
                         | Inr entry0 \<Rightarrow>
                             (case append_raw_log entry0 s of
                                Inl e \<Rightarrow> (p\<lparr>state := st2\<rparr>, Some e)
                              | Inr entry1 \<Rightarrow>
                                  (let entry2 =
                                         (if dict_get entry1 ''timestamp'' = None
                                          then dict_set entry1 ''timestamp'' (DT tstamp)
                                          else entry1);
                                       p3 = p\<lparr>state := dict_set st2 qid entry2\<rparr>
                                   in (case handle_special_postfix_cases L qid (drop 4 tokens) p3 of
                                         (p4, Inl e) \<Rightarrow> (p4, Some e)
                                       | (p4, Inr True) \<Rightarrow> (p4, None)
                                       | (p4, Inr False) \<Rightarrow>
                                           (case set_fields entry2 tokens of
                                              (entry3, r) \<Rightarrow>
                                                (p4\<lparr>state := dict_set (state p4) qid entry3\<rparr>,
                                                 r))))))))))"

text \<open>
  \<open>feed_line\<close>, with the reading of \<open>now()\<close> as argument. The sweep runs outside the
  \<open>try\<close> statement: its exception leaves \<open>feed_line\<close> (second component). An exception of
  the body is handed to \<open>on_fault\<close> with the line.
\<close>

definition feed_line :: "lib \<Rightarrow> int \<Rightarrow> string \<Rightarrow> parser \<Rightarrow> parser \<times> py_exc option" where
  "feed_line L ts s p =
     (case cleanup_old_entities ts p of
        (p1, Some e) \<Rightarrow> (p1, Some e)
      | (p1, None) \<Rightarrow>
          (case feed_line_body L s p1 of
             (p2, None) \<Rightarrow> (p2, None)
           | (p2, Some e) \<Rightarrow> (p2\<lparr>faults := faults p2 @ [(s, e)]\<rparr>, None)))"

section \<open>Notions of the specification\<close>

text \<open>
  The status-code rule in the words of the specification: a token of exactly three ASCII
  digits, followed by a token of three dot-separated groups of ASCII digits. A pair chosen
  by the rule gives the numeric code and the dotted code.
\<close>

definition is_ascii :: "char \<Rightarrow> bool" where
  "is_ascii c = ((of_char c :: nat) < 128)"

definition three_ascii_digits :: "string \<Rightarrow> bool" where
  "three_ascii_digits s = (length s = 3 \<and> (\<forall>c \<in> set s. ascii_digit c))"

definition dotted_ascii_triple :: "string \<Rightarrow> bool" where
  "dotted_ascii_triple s =
     (\<exists>a b c. s = a @ ''.'' @ b @ ''.'' @ c \<and> a \<noteq> [] \<and> b \<noteq> [] \<and> c \<noteq> [] \<and>
        (\<forall>x \<in> set (a @ b @ c). ascii_digit x))"

definition qualifying_pair :: "string \<times> string \<Rightarrow> bool" where
  "qualifying_pair p = (three_ascii_digits (fst p) \<and> dotted_ascii_triple (snd p))"

definition codes_of_pair :: "(string \<times> string) option \<Rightarrow> int option \<times> string option" where
  "codes_of_pair r =
     (case r of None \<Rightarrow> (None, None) | Some (a, b) \<Rightarrow> (Some (decimal_value a), Some b))"

text \<open>
  Deduplication that keeps first-seen order: the head stays, and its later copies are
  removed from the rest.
\<close>

fun first_seen :: "'a list \<Rightarrow> 'a list" where
  "first_seen [] = []"
| "first_seen (x # xs) = x # filter (\<lambda>y. y \<noteq> x) (first_seen xs)"

section \<open>Auxiliary notions for the statements\<close>

text \<open>
  The field \<open>to\<close> of a record as \<open>_set_fields\<close> leaves it, absent or a list, and the
  recipients it holds.
\<close>

definition to_is_list :: "entry \<Rightarrow> bool" where
  "to_is_list e = (case dict_get e ''to'' of None \<Rightarrow> True | Some (StrList xs) \<Rightarrow> True | Some _ \<Rightarrow> False)"

definition to_list :: "entry \<Rightarrow> string list" where
  "to_list e = (case dict_get e ''to'' of Some (StrList xs) \<Rightarrow> xs | _ \<Rightarrow> [])"

text \<open>
  The values of the \<open>to=\<close> tokens of a token list, in order and without trailing commas,
  and the index that the loop of \<open>_set_fields\<close> leaves in \<open>status_idx\<close>.
\<close>

definition to_values :: "string list \<Rightarrow> string list" where
  "to_values tokens = map (\<lambda>t. rstrip '','' (drop 3 t)) (filter (\<lambda>t. startswith t ''to='') tokens)"

fun status_index :: "string list \<Rightarrow> nat \<Rightarrow> nat option \<Rightarrow> nat option" where
  "status_index [] idx sidx = sidx"
| "status_index (t # ts) idx sidx =
     status_index ts (Suc idx) (if startswith t ''status='' then Some idx else sidx)"

text \<open>A record as the lines of a delivery to two recipients leave it.\<close>

definition example_record :: entry where
  "example_record =
     [(''raw_log'', StrList [''2024-05-11T19:19:29+03:00 test3-stack postfix/smtpd[7113]: 1CC191002F0: client=unknown'']),
      (''timestamp'', DT (Aware 1715444369000000)),
      (''client'', Str ''unknown''),
      (''message-id'', Str ''<1f9d20ee@gmail.com>''),
      (''from'', Str ''<example@gmail.com>''),
      (''to'', StrList [''<max1@localhost>'', ''<max2@localhost>'']),
      (''status'', Str ''sent''),
      (''status_description'', Str ''250 2.0.0 <max2@localhost> Saved'')]"

text \<open>
  A sequence of lines fed one after the other, each with the clock reading of its call, as
  the loops of the tests and of the command line do; an exception that leaves \<open>feed_line\<close>
  ends the run. \<open>record_field\<close> reads one field of one open record.
\<close>

fun feed_lines :: "lib \<Rightarrow> (int \<times> string) list \<Rightarrow> parser \<Rightarrow> parser \<times> py_exc option" where
  "feed_lines L [] p = (p, None)"
| "feed_lines L ((ts, s) # rest) p =
     (case feed_line L ts s p of
        (p1, Some e) \<Rightarrow> (p1, Some e)
      | (p1, None) \<Rightarrow> feed_lines L rest p1)"

definition record_field :: "parser \<Rightarrow> string \<Rightarrow> string \<Rightarrow> pyval option" where
  "record_field p qid k = Option.bind (dict_get (state p) qid) (\<lambda>e. dict_get e k)"






text \<open>
  Stand-ins for the library at the inputs of the examples, and the parser of the examples:
  the state after the first line of a delivery.
\<close>

definition example_lib :: lib where
  "example_lib =
     \<lparr> fromisoformat = map_of
         [(''2024-04-30T15:09:27+03:00'', Aware 1714478967000000),
          (''2024-04-30T15:09:28+03:00'', Aware 1714478968000000)],
       decode_subject = (\<lambda>t. Inl ValueError) \<rparr>"

definition example_open_parser :: parser where
  "example_open_parser =
     \<lparr> state =
         [(''DBC88100165'',
           [(''raw_log'', StrList [''2024-04-30T15:09:27+03:00 localhost postfix/smtpd[2799418]: DBC88100165: client=unknown[91.215.169.237]'']),
            (''timestamp'', DT (Aware 1714478967000000)),
            (''client'', Str ''unknown[91.215.169.237]'')])],
       next_cleanup = 1714479020000000, events = [], faults = [] \<rparr>"

section \<open>The transaction-id check\<close>

text \<open>
  C3, as the code has it: \<open>_is_queue_id\<close> accepts a token if and only if it has exactly 12
  characters and its first 11 characters are uppercase hexadecimal digits. The twelfth
  character is cut off without being looked at.
\<close>

theorem is_queue_id_iff:
  "is_queue_id t \<longleftrightarrow>
     length t = 12 \<and> (\<forall>c \<in> set (take 11 t). c \<in> set ''0123456789ABCDEF'')"
proof (cases "length t = 12")
  case True
  then have "butlast t = take 11 t"
    by (simp add: butlast_conv_take)
  with True show ?thesis
    by (simp add: is_queue_id_def list_all_iff)
next
  case False
  then show ?thesis
    by (simp add: is_queue_id_def)
qed

theorem is_queue_id_iff_witness:
  "is_queue_id ''0A3F51021C3:'' \<and> \<not> is_queue_id ''0A3F51021C3'' \<and> \<not> is_queue_id ''0a3f51021c3:''"
  using is_queue_id_iff [of "''0A3F51021C3:''"] is_queue_id_iff [of "''0A3F51021C3''"]
    is_queue_id_iff [of "''0a3f51021c3:''"]
  by simp

text \<open>
  C3 as it is written asks for a colon in the last place. The token \<open>0A3F51021C3X\<close> has
  none and is accepted.
\<close>

theorem is_queue_id_colon_counterexample:
  "is_queue_id ''0A3F51021C3X'' \<and>
   \<not> (length ''0A3F51021C3X'' = 12 \<and> last ''0A3F51021C3X'' = CHR '':'' \<and>
      list_all (\<lambda>c. c \<in> set ''0123456789ABCDEF'') (take 11 ''0A3F51021C3X''))"
  by (simp add: is_queue_id_def)

section \<open>Status code derivation\<close>

lemma split_on_acc_no_sep: "sep \<notin> set s \<Longrightarrow> split_on_acc sep s cur = [cur @ s]"
  by (induction s arbitrary: cur) auto

lemma split_on_acc_first_sep:
  "sep \<notin> set a \<Longrightarrow> split_on_acc sep (a @ sep # r) cur = (cur @ a) # split_on_acc sep r []"
  by (induction a arbitrary: cur) auto

lemma split_on_acc_nonempty: "split_on_acc sep s cur \<noteq> []"
  by (induction s arbitrary: cur) auto

lemma split_on_cases:
  "(sep \<notin> set s \<and> split_on sep s = [s]) \<or>
   (\<exists>a r. s = a @ sep # r \<and> sep \<notin> set a \<and> split_on sep s = a # split_on sep r)"
proof (cases "sep \<in> set s")
  case True
  then obtain a r where "s = a @ sep # r" "sep \<notin> set a"
    by (meson split_list_first)
  then show ?thesis
    by (auto simp: split_on_def split_on_acc_first_sep)
next
  case False
  then show ?thesis
    by (simp add: split_on_def split_on_acc_no_sep)
qed

lemma split_on_nonempty: "split_on sep s \<noteq> []"
  by (simp add: split_on_def split_on_acc_nonempty)

lemma split_on_three:
  "length (split_on sep s) = 3 \<longleftrightarrow>
     (\<exists>a b c. s = a @ sep # b @ sep # c \<and> sep \<notin> set a \<and> sep \<notin> set b \<and> sep \<notin> set c)"
  (is "?L \<longleftrightarrow> ?R")
proof
  assume L: ?L
  from split_on_cases [of sep s] L obtain a r where
    s: "s = a @ sep # r" "sep \<notin> set a" "split_on sep s = a # split_on sep r"
    by auto
  with L have l2: "length (split_on sep r) = 2" by simp
  from split_on_cases [of sep r] l2 obtain b r' where
    r: "r = b @ sep # r'" "sep \<notin> set b" "split_on sep r = b # split_on sep r'"
    by auto
  with l2 have l1: "length (split_on sep r') = 1" by simp
  have "sep \<notin> set r'"
  proof
    assume "sep \<in> set r'"
    with split_on_cases [of sep r'] obtain c r'' where "split_on sep r' = c # split_on sep r''"
      by auto
    with l1 split_on_nonempty [of sep r''] show False by (cases "split_on sep r''") auto
  qed
  with s r show ?R by auto
next
  assume ?R
  then obtain a b c where "s = a @ sep # b @ sep # c" "sep \<notin> set a" "sep \<notin> set b" "sep \<notin> set c"
    by auto
  then show ?L
    by (simp add: split_on_def split_on_acc_first_sep split_on_acc_no_sep)
qed

lemma split_on_three_eq:
  "sep \<notin> set a \<Longrightarrow> sep \<notin> set b \<Longrightarrow> sep \<notin> set c \<Longrightarrow> split_on sep (a @ sep # b @ sep # c) = [a, b, c]"
  by (simp add: split_on_def split_on_acc_first_sep split_on_acc_no_sep)

lemma dot_not_digit: "\<not> isdigit CHR ''.''"
  by (simp add: isdigit_def ascii_digit_def)

lemma ascii_isdigit: "is_ascii c \<Longrightarrow> isdigit c = ascii_digit c"
  by (auto simp: is_ascii_def isdigit_def)

lemma ascii_digit_isdigit: "ascii_digit c \<Longrightarrow> isdigit c"
  by (simp add: isdigit_def)

lemma is_postfix_status_code_iff:
  "is_postfix_status_code s \<longleftrightarrow>
     (\<exists>a b c. s = a @ ''.'' @ b @ ''.'' @ c \<and> str_isdigit a \<and> str_isdigit b \<and> str_isdigit c)"
  (is "?L \<longleftrightarrow> ?R")
proof
  assume ?L
  then have len: "length (split_on CHR ''.'' s) = 3" and dig: "list_all str_isdigit (split_on CHR ''.'' s)"
    by (simp_all add: is_postfix_status_code_def Let_def)
  from len obtain a b c where abc: "s = a @ CHR ''.'' # b @ CHR ''.'' # c"
      "CHR ''.'' \<notin> set a" "CHR ''.'' \<notin> set b" "CHR ''.'' \<notin> set c"
    unfolding split_on_three by blast
  with dig have "str_isdigit a \<and> str_isdigit b \<and> str_isdigit c"
    by (simp add: split_on_three_eq)
  with abc show ?R by auto
next
  assume ?R
  then obtain a b c where abc: "s = a @ ''.'' @ b @ ''.'' @ c" "str_isdigit a" "str_isdigit b" "str_isdigit c"
    by blast
  then have "CHR ''.'' \<notin> set a \<and> CHR ''.'' \<notin> set b \<and> CHR ''.'' \<notin> set c"
    using dot_not_digit by (auto simp: str_isdigit_def list_all_iff)
  with abc show ?L
    by (simp add: is_postfix_status_code_def Let_def split_on_three_eq)
qed

lemma str_isdigit_ascii:
  assumes "\<forall>c \<in> set g. is_ascii c"
  shows "str_isdigit g \<longleftrightarrow> g \<noteq> [] \<and> (\<forall>x \<in> set g. ascii_digit x)"
proof -
  from assms have "\<forall>x \<in> set g. isdigit x = ascii_digit x"
    by (simp add: ascii_isdigit)
  then show ?thesis
    by (simp add: str_isdigit_def list_all_iff)
qed

lemma is_postfix_status_code_ascii:
  assumes "\<forall>c \<in> set s. is_ascii c"
  shows "is_postfix_status_code s \<longleftrightarrow> dotted_ascii_triple s"
proof
  assume "is_postfix_status_code s"
  then obtain a b c where abc: "s = a @ ''.'' @ b @ ''.'' @ c"
      "str_isdigit a" "str_isdigit b" "str_isdigit c"
    unfolding is_postfix_status_code_iff by blast
  from abc(1) assms have "\<forall>x \<in> set a. is_ascii x" "\<forall>x \<in> set b. is_ascii x" "\<forall>x \<in> set c. is_ascii x"
    by auto
  with abc have "a \<noteq> [] \<and> b \<noteq> [] \<and> c \<noteq> [] \<and> (\<forall>x \<in> set (a @ b @ c). ascii_digit x)"
    by (auto simp: str_isdigit_ascii)
  with abc(1) show "dotted_ascii_triple s"
    unfolding dotted_ascii_triple_def by blast
next
  assume "dotted_ascii_triple s"
  then obtain a b c where abc: "s = a @ ''.'' @ b @ ''.'' @ c" "a \<noteq> []" "b \<noteq> []" "c \<noteq> []"
      "\<forall>x \<in> set (a @ b @ c). ascii_digit x"
    unfolding dotted_ascii_triple_def by blast
  then have "str_isdigit a \<and> str_isdigit b \<and> str_isdigit c"
    by (simp add: str_isdigit_def list_all_iff ascii_digit_isdigit)
  with abc(1) show "is_postfix_status_code s"
    unfolding is_postfix_status_code_iff by blast
qed

lemma is_status_code_ascii:
  assumes "\<forall>c \<in> set s. is_ascii c"
  shows "is_status_code s \<longleftrightarrow> three_ascii_digits s"
  using assms by (auto simp: is_status_code_def three_ascii_digits_def list_all_iff ascii_isdigit)

lemma py_int_three: "three_ascii_digits s \<Longrightarrow> py_int s = Inr (decimal_value s)"
  by (auto simp: three_ascii_digits_def py_int_def list_all_iff)

lemma find_snoc:
  "find P (xs @ [x]) = (case find P xs of None \<Rightarrow> (if P x then Some x else None) | Some y \<Rightarrow> Some y)"
  by (induction xs) auto

lemma parse_status_code_loop_last:
  assumes "\<forall>(a, b) \<in> set ps. (\<forall>c \<in> set a. is_ascii c) \<and> (\<forall>c \<in> set b. is_ascii c)"
  shows "parse_status_code_loop ps acc =
           Inr (case find qualifying_pair (rev ps) of None \<Rightarrow> acc | Some r \<Rightarrow> codes_of_pair (Some r))"
  using assms
proof (induction ps arbitrary: acc)
  case Nil
  then show ?case by simp
next
  case (Cons p ps)
  obtain a b where p: "p = (a, b)" by (cases p)
  with Cons.prems have asc: "\<forall>c \<in> set a. is_ascii c" "\<forall>c \<in> set b. is_ascii c"
    and rest: "\<forall>(a, b) \<in> set ps. (\<forall>c \<in> set a. is_ascii c) \<and> (\<forall>c \<in> set b. is_ascii c)"
    by auto
  have q: "qualifying_pair p \<longleftrightarrow> is_status_code a \<and> is_postfix_status_code b"
    using asc p by (simp add: qualifying_pair_def is_status_code_ascii is_postfix_status_code_ascii)
  show ?case
  proof (cases "qualifying_pair p")
    case True
    with q p have "py_int a = Inr (decimal_value a)"
      by (simp add: py_int_three qualifying_pair_def)
    with True q p Cons.IH [OF rest] show ?thesis
      by (simp add: exc_bind_def find_snoc codes_of_pair_def split: option.splits)
  next
    case False
    with q p Cons.IH [OF rest] show ?thesis
      by (auto simp: find_snoc split: option.splits)
  qed
qed

lemma split_acc_chars: "set (concat (split_acc s cur)) \<subseteq> set s \<union> set cur"
  by (induction s cur rule: split_acc.induct) auto

lemma split_ws_chars: "t \<in> set (split_ws s) \<Longrightarrow> set t \<subseteq> set s"
  using split_acc_chars [of s "[]"] by (auto simp: split_ws_def)

lemma pairwise_set: "(a, b) \<in> set (pairwise xs) \<Longrightarrow> a \<in> set xs \<and> b \<in> set xs"
proof -
  assume "(a, b) \<in> set (pairwise xs)"
  then have "a \<in> set xs" and "b \<in> set (tl xs)"
    by (auto simp: pairwise_def dest: set_zip_leftD set_zip_rightD)
  then show ?thesis
    by (cases xs) auto
qed

lemma parse_status_code_last:
  assumes "\<forall>c \<in> set d. is_ascii c"
  shows "parse_status_code (Str d) =
           Inr (codes_of_pair (find qualifying_pair (rev (pairwise (split_ws d)))))"
proof -
  have "\<forall>(a, b) \<in> set (pairwise (split_ws d)). (\<forall>c \<in> set a. is_ascii c) \<and> (\<forall>c \<in> set b. is_ascii c)"
    using assms by (auto dest!: pairwise_set split_ws_chars)
  then show ?thesis
    by (simp add: parse_status_code_def parse_status_code_loop_last codes_of_pair_def split: option.splits)
qed


lemma qualifying_pair_ascii:
  "\<forall>c \<in> set a. is_ascii c \<Longrightarrow> \<forall>c \<in> set b. is_ascii c \<Longrightarrow>
   qualifying_pair (a, b) \<longleftrightarrow> is_status_code a \<and> is_postfix_status_code b"
  by (simp add: qualifying_pair_def is_status_code_ascii is_postfix_status_code_ascii)

lemma PostfixEvent_init_codes:
  assumes "PostfixEvent_init qid obj = Inr ev"
  shows "\<exists>descr. dict_get obj ''status_description'' = Some descr \<and>
           parse_status_code descr = Inr (status_code ev, status_postfix_code ev)"
  using assms
  by (auto simp: PostfixEvent_init_def exc_bind_def getitem_def split: sum.splits option.splits)

text \<open>
  C2, as the code has it: the loop of \<open>parse_status_code\<close> has no \<open>break\<close>, so on an
  ASCII status description the last adjacent pair of tokens that qualifies (three ASCII
  digits, then three dot-separated groups of ASCII digits) gives \<open>status_code\<close> (the
  first token as an integer) and \<open>status_postfix_code\<close> (the second token as it is); when
  no pair qualifies both stay unset and nothing is raised. The same holds for the two
  attributes of every event built from a record with that description.
\<close>

theorem status_codes_from_last_pair:
  assumes "\<forall>c \<in> set d. is_ascii c"
  shows "parse_status_code (Str d) =
           Inr (codes_of_pair (find qualifying_pair (rev (pairwise (split_ws d))))) \<and>
         (\<forall>qid obj ev. PostfixEvent_init qid obj = Inr ev \<and>
              dict_get obj ''status_description'' = Some (Str d) \<longrightarrow>
            (status_code ev, status_postfix_code ev) =
              codes_of_pair (find qualifying_pair (rev (pairwise (split_ws d)))))"
proof -
  have p: "parse_status_code (Str d) =
           Inr (codes_of_pair (find qualifying_pair (rev (pairwise (split_ws d)))))"
    using assms by (rule parse_status_code_last)
  moreover have "(status_code ev, status_postfix_code ev) =
              codes_of_pair (find qualifying_pair (rev (pairwise (split_ws d))))"
    if "PostfixEvent_init qid obj = Inr ev" "dict_get obj ''status_description'' = Some (Str d)"
    for qid obj ev
    using PostfixEvent_init_codes [OF that(1)] that(2) p by auto
  ultimately show ?thesis by blast
qed

theorem status_codes_from_last_pair_witness:
  "list_all is_ascii ''250 2.0.0 <user@localhost> VB7QLWJ5FWbMSyEA0J78UA Saved'' \<and>
   codes_of_pair (find qualifying_pair (rev (pairwise (split_ws
       ''250 2.0.0 <user@localhost> VB7QLWJ5FWbMSyEA0J78UA Saved'')))) = (Some 250, Some ''2.0.0'')"
proof -
  have a: "\<forall>c \<in> set ''250 2.0.0 <user@localhost> VB7QLWJ5FWbMSyEA0J78UA Saved''. is_ascii c"
    by (simp add: is_ascii_def)
  have "parse_status_code (Str ''250 2.0.0 <user@localhost> VB7QLWJ5FWbMSyEA0J78UA Saved'') =
          Inr (Some 250, Some ''2.0.0'')"
    by code_simp
  with status_codes_from_last_pair [OF a] a show ?thesis
    by (simp add: list_all_iff)
qed

text \<open>
  C2 as it is written lets the first qualifying pair decide. In \<open>250 2.0.0 550 5.1.1\<close> the
  first qualifying pair is \<open>250\<close>, \<open>2.0.0\<close>, and the code ends with 550 and \<open>5.1.1\<close>.
\<close>

theorem first_pair_counterexample:
  "parse_status_code (Str ''250 2.0.0 550 5.1.1'') = Inr (Some 550, Some ''5.1.1'') \<and>
   codes_of_pair (find qualifying_pair (pairwise (split_ws ''250 2.0.0 550 5.1.1''))) =
     (Some 250, Some ''2.0.0'')"
proof -
  have s: "split_ws ''250 2.0.0 550 5.1.1'' = [''250'', ''2.0.0'', ''550'', ''5.1.1'']"
    by code_simp
  have "qualifying_pair (''250'', ''2.0.0'')"
    by (subst qualifying_pair_ascii) (simp_all add: is_ascii_def, code_simp)
  moreover have "decimal_value ''250'' = 250"
    by code_simp
  moreover have "parse_status_code (Str ''250 2.0.0 550 5.1.1'') = Inr (Some 550, Some ''5.1.1'')"
    by code_simp
  ultimately show ?thesis
    by (simp add: s pairwise_def codes_of_pair_def)
qed

section \<open>Dicts and the fields of a line\<close>

lemma dict_get_set: "dict_get (dict_set d k v) k' = (if k' = k then Some v else dict_get d k')"
  by (induction d) (auto simp: dict_get_def)

lemma dict_keys_set: "fst ` set (dict_set d k v) = insert k (fst ` set d)"
proof (induction d)
  case Nil
  show ?case by simp
next
  case (Cons p d)
  obtain k' v' where p: "p = (k', v')" by (cases p)
  show ?case
    by (cases "k' = k") (simp_all add: p Cons.IH insert_commute)
qed

lemma dict_set_distinct: "distinct (map fst d) \<Longrightarrow> distinct (map fst (dict_set d k v))"
  by (induction d) (auto simp: dict_keys_set)

lemma dict_get_None_iff: "dict_get d k = None \<longleftrightarrow> k \<notin> fst ` set d"
  by (simp add: dict_get_def map_of_eq_None_iff)

lemma split_once_eq:
  "CHR ''='' \<in> set t \<Longrightarrow> split_once CHR ''='' t ! 0 = takeWhile (\<lambda>c. c \<noteq> CHR ''='') t"
  "CHR ''='' \<in> set t \<Longrightarrow> split_once CHR ''='' t ! 1 = tl (dropWhile (\<lambda>c. c \<noteq> CHR ''='') t)"
  by (simp_all add: split_once_def)

lemma name_eq_iff:
  "(CHR ''='' \<in> set t \<and> takeWhile (\<lambda>c. c \<noteq> CHR ''='') t = n) \<longleftrightarrow>
     (CHR ''='' \<notin> set n \<and> take (Suc (length n)) t = n @ ''='')"
  (is "?L \<longleftrightarrow> ?R")
proof
  assume L: ?L
  then obtain a r where t: "t = a @ CHR ''='' # r" "CHR ''='' \<notin> set a"
    by (meson split_list_first)
  then have "takeWhile (\<lambda>c. c \<noteq> CHR ''='') t = a"
    by (auto simp: takeWhile_tail)
  with L t show ?R by auto
next
  assume R: ?R
  then have "t = (n @ ''='') @ drop (Suc (length n)) t"
    by (metis append_take_drop_id)
  then obtain r where t: "t = n @ CHR ''='' # r" by auto
  with R have "takeWhile (\<lambda>c. c \<noteq> CHR ''='') t = n"
    by (auto simp: takeWhile_tail)
  with t show ?L by auto
qed

lemma name_is_to: "(CHR ''='' \<in> set t \<and> split_once CHR ''='' t ! 0 = ''to'') \<longleftrightarrow> startswith t ''to=''"
  using name_eq_iff [of t "''to''"] by (auto simp: split_once_eq startswith_def)

lemma name_is_status:
  "(CHR ''='' \<in> set t \<and> split_once CHR ''='' t ! 0 = ''status'') \<longleftrightarrow> startswith t ''status=''"
  using name_eq_iff [of t "''status''"] by (auto simp: split_once_eq startswith_def)

lemma value_of_to: "startswith t ''to='' \<Longrightarrow> split_once CHR ''='' t ! 1 = drop 3 t"
proof -
  assume "startswith t ''to=''"
  then have "t = ''to='' @ drop 3 t"
    by (metis append_take_drop_id startswith_def length_Cons list.size(3) numeral_3_eq_3)
  then obtain r where "t = ''to='' @ r" ..
  then show ?thesis
    by (simp add: split_once_def)
qed


lemma to_values_Cons:
  "to_values (t # ts) =
     (if startswith t ''to='' then rstrip '','' (drop 3 t) # to_values ts else to_values ts)"
  by (simp add: to_values_def)

lemma to_values_Nil: "to_values [] = []"
  by (simp add: to_values_def)

lemma no_eq_not_startswith:
  "CHR ''='' \<notin> set t \<Longrightarrow> \<not> startswith t ''to='' \<and> \<not> startswith t ''status=''"
  using name_is_to [of t] name_is_status [of t] by auto

lemma to_is_list_set_other: "k \<noteq> ''to'' \<Longrightarrow> to_is_list (dict_set e k v) = to_is_list e"
  by (simp add: to_is_list_def dict_get_set)

lemma to_list_set_other: "k \<noteq> ''to'' \<Longrightarrow> to_list (dict_set e k v) = to_list e"
  by (simp add: to_list_def dict_get_set)

lemma to_set_to:
  "to_is_list (dict_set e ''to'' (StrList xs))" "to_list (dict_set e ''to'' (StrList xs)) = xs"
  by (simp_all add: to_is_list_def to_list_def dict_get_set)

lemma set_fields_loop_step_plain:
  "CHR ''='' \<notin> set t \<Longrightarrow>
   set_fields_loop (t # ts) idx sidx e = set_fields_loop ts (Suc idx) sidx e"
  by simp

lemma set_fields_loop_step_to:
  assumes "startswith t ''to=''" "to_is_list e"
  shows "set_fields_loop (t # ts) idx sidx e =
           set_fields_loop ts (Suc idx) sidx
             (dict_set e ''to'' (StrList (to_list e @ [rstrip '','' (drop 3 t)])))"
proof -
  from assms(1) have eq: "CHR ''='' \<in> set t" and n: "split_once CHR ''='' t ! 0 = ''to''"
    using name_is_to [of t] by auto
  from assms(1) have v: "split_once CHR ''='' t ! Suc 0 = drop 3 t"
    using value_of_to [of t] by simp
  from assms(2) show ?thesis
    by (simp add: eq n v Let_def to_is_list_def to_list_def split: option.splits pyval.splits)
qed

lemma set_fields_loop_step_other:
  assumes "CHR ''='' \<in> set t" "\<not> startswith t ''to=''"
  shows "set_fields_loop (t # ts) idx sidx e =
           set_fields_loop ts (Suc idx) (if startswith t ''status='' then Some idx else sidx)
             (dict_set e (split_once CHR ''='' t ! 0)
                (Str (rstrip '','' (split_once CHR ''='' t ! Suc 0))))"
proof -
  from assms have n: "split_once CHR ''='' t ! 0 \<noteq> ''to''"
    using name_is_to [of t] by auto
  from assms(1) have "(split_once CHR ''='' t ! 0 = ''status'') = startswith t ''status=''"
    using name_is_status [of t] by auto
  with n assms(1) show ?thesis
    by (simp add: Let_def)
qed

lemma set_fields_loop_result:
  assumes "to_is_list e"
  shows "\<exists>e'. set_fields_loop ts idx sidx e = (e', Inr (status_index ts idx sidx)) \<and> to_is_list e' \<and>
           dict_get e' ''to'' =
             (if to_values ts = [] then dict_get e ''to''
              else Some (StrList (to_list e @ to_values ts)))"
  using assms
proof (induction ts arbitrary: idx sidx e)
  case Nil
  then show ?case by (simp add: to_values_Nil)
next
  case (Cons t ts)
  show ?case
  proof (cases "CHR ''='' \<in> set t")
    case False
    with Cons.IH [OF Cons.prems, of "Suc idx" sidx] no_eq_not_startswith [OF False]
    show ?thesis
      by (auto simp add: to_values_Cons set_fields_loop_step_plain simp del: set_fields_loop.simps)
  next
    case True
    show ?thesis
    proof (cases "startswith t ''to=''")
      case to: True
      then have ns: "\<not> startswith t ''status=''"
        using name_is_to [of t] name_is_status [of t] by auto
      let ?e1 = "dict_set e ''to'' (StrList (to_list e @ [rstrip '','' (drop 3 t)]))"
      from Cons.IH [of ?e1 "Suc idx" sidx]
      obtain e' where e': "set_fields_loop ts (Suc idx) sidx ?e1 = (e', Inr (status_index ts (Suc idx) sidx))"
          "to_is_list e'"
          "dict_get e' ''to'' = (if to_values ts = [] then dict_get ?e1 ''to''
              else Some (StrList (to_list ?e1 @ to_values ts)))"
        by (auto simp: to_set_to)
      with to ns Cons.prems show ?thesis
        by (simp add: set_fields_loop_step_to to_values_Cons to_set_to dict_get_set
              del: set_fields_loop.simps)
    next
      case nto: False
      let ?e1 = "dict_set e (split_once CHR ''='' t ! 0)
                   (Str (rstrip '','' (split_once CHR ''='' t ! Suc 0)))"
      from True nto have n: "split_once CHR ''='' t ! 0 \<noteq> ''to''"
        using name_is_to [of t] by auto
      with Cons.prems have ok: "to_is_list ?e1" and tl: "to_list ?e1 = to_list e"
          and tg: "dict_get ?e1 ''to'' = dict_get e ''to''"
        by (simp_all add: to_is_list_set_other to_list_set_other dict_get_set)
      from Cons.IH [OF ok, of "Suc idx" "if startswith t ''status='' then Some idx else sidx"]
      show ?thesis
        using True nto
        by (auto simp add: set_fields_loop_step_other to_values_Cons tl tg
              simp del: set_fields_loop.simps)
    qed
  qed
qed

lemma status_index_none:
  "\<forall>t \<in> set ts. \<not> startswith t ''status='' \<Longrightarrow> status_index ts idx sidx = sidx"
  by (induction ts arbitrary: idx sidx) auto

lemma status_index_last:
  assumes "i < length ts" "startswith (ts ! i) ''status=''"
    and "\<forall>j. i < j \<and> j < length ts \<longrightarrow> \<not> startswith (ts ! j) ''status=''"
  shows "status_index ts idx sidx = Some (idx + i)"
  using assms
proof (induction ts arbitrary: i idx sidx)
  case Nil
  then show ?case by simp
next
  case (Cons t ts)
  show ?case
  proof (cases i)
    case 0
    have "\<forall>u \<in> set ts. \<not> startswith u ''status=''"
    proof
      fix u assume "u \<in> set ts"
      then obtain j where j: "j < length ts" "ts ! j = u"
        by (auto simp: in_set_conv_nth)
      with Cons.prems(3) 0 have "\<not> startswith ((t # ts) ! Suc j) ''status=''"
        by auto
      with j show "\<not> startswith u ''status=''" by simp
    qed
    with 0 Cons.prems show ?thesis
      by (simp add: status_index_none)
  next
    case (Suc k)
    with Cons.prems have "k < length ts" "startswith (ts ! k) ''status=''"
      "\<forall>j. k < j \<and> j < length ts \<longrightarrow> \<not> startswith (ts ! j) ''status=''"
      by auto
    from Cons.IH [OF this] Suc show ?thesis
      by simp
  qed
qed


lemma set_fields_to:
  assumes "to_is_list e"
  shows "\<exists>e'. set_fields e tokens = (e', None) \<and> to_is_list e' \<and>
           dict_get e' ''to'' =
             (if to_values tokens = [] then dict_get e ''to''
              else Some (StrList (to_list e @ to_values tokens)))"
proof -
  from set_fields_loop_result [OF assms, of tokens 0 None]
  obtain e1 where e1: "set_fields_loop tokens 0 None e = (e1, Inr (status_index tokens 0 None))"
      "to_is_list e1"
      "dict_get e1 ''to'' = (if to_values tokens = [] then dict_get e ''to''
              else Some (StrList (to_list e @ to_values tokens)))"
    by blast
  then show ?thesis
    by (auto simp: set_fields_def to_is_list_set_other dict_get_set split: option.splits)
qed

lemma set_fields_status_description:
  assumes "to_is_list e" "0 < i" "i < length tokens" "startswith (tokens ! i) ''status=''"
    and "\<forall>j. i < j \<and> j < length tokens \<longrightarrow> \<not> startswith (tokens ! j) ''status=''"
  shows "\<exists>e'. set_fields e tokens = (e', None) \<and>
           dict_get e' ''status_description'' =
             Some (Str (rstrip '')'' (lstrip ''('' (join_sp (drop (Suc i) tokens)))))"
proof -
  from set_fields_loop_result [OF assms(1), of tokens 0 None]
  obtain e1 where e1: "set_fields_loop tokens 0 None e = (e1, Inr (status_index tokens 0 None))"
    by blast
  from status_index_last [OF assms(3,4,5), of 0 None]
  have "status_index tokens 0 None = Some i" by simp
  with e1 assms(2) show ?thesis
    by (simp add: set_fields_def dict_get_set)
qed

section \<open>Recipients and domains\<close>

lemma set_first_seen: "set (first_seen xs) = set xs"
  by (induction xs) auto

lemma distinct_first_seen: "distinct (first_seen xs)"
  by (induction xs) auto

lemma fromkeys_first_seen:
  "fromkeys ks xs = ks @ filter (\<lambda>y. y \<notin> set ks) (first_seen xs)"
proof (induction xs arbitrary: ks)
  case Nil
  show ?case by simp
next
  case (Cons x xs)
  show ?case
  proof (cases "x \<in> set ks")
    case True
    then have "filter (\<lambda>y. y \<notin> set ks) (filter (\<lambda>y. y \<noteq> x) (first_seen xs)) =
               filter (\<lambda>y. y \<notin> set ks) (first_seen xs)"
      by (auto intro: filter_cong)
    with True Cons.IH [of ks] show ?thesis by simp
  next
    case False
    have "filter (\<lambda>y. y \<notin> set (ks @ [x])) (first_seen xs) =
          filter (\<lambda>y. y \<notin> set ks) (filter (\<lambda>y. y \<noteq> x) (first_seen xs))"
      by (auto intro: filter_cong)
    with False Cons.IH [of "ks @ [x]"] show ?thesis by simp
  qed
qed

lemma get_domain_no_at: "CHR ''@'' \<notin> set a \<Longrightarrow> get_domain a = a"
  by (simp add: get_domain_def split_once_def)

lemma get_domain_at: "CHR ''@'' \<notin> set a \<Longrightarrow> get_domain (a @ ''@'' @ b) = b"
proof -
  assume a: "CHR ''@'' \<notin> set a"
  then have "dropWhile (\<lambda>c. c \<noteq> CHR ''@'') a = []"
    by auto
  with a show ?thesis
    by (simp add: get_domain_def split_once_def takeWhile_tail dropWhile_append3)
qed

lemma strip_brackets:
  assumes "a \<noteq> []" "hd a \<notin> set ''<>''" "last a \<notin> set ''<>''"
  shows "strip ''<>'' (''<'' @ a @ ''>'') = a"
proof -
  from assms obtain x xs where a: "a = x # xs" and x: "x \<noteq> CHR ''<''" "x \<noteq> CHR ''>''"
    by (cases a) auto
  from assms obtain ys y where b: "a = ys @ [y]" and y: "y \<noteq> CHR ''<''" "y \<noteq> CHR ''>''"
    by (cases a rule: rev_cases) auto
  have "lstrip ''<>'' (''<'' @ a @ ''>'') = a @ ''>''"
    using a x by (simp add: lstrip_def)
  moreover have "rstrip ''<>'' (a @ ''>'') = a"
    using b y by (simp add: rstrip_def)
  ultimately show ?thesis
    by (simp add: strip_def)
qed

lemma PostfixEvent_init_to:
  assumes "PostfixEvent_init qid obj = Inr ev" "dict_get obj ''to'' = Some (StrList tos)"
  shows "message_to ev = map (strip ''<>'') tos \<and>
         domains_to ev = fromkeys [] (map get_domain (message_to ev))"
  using assms
  by (auto simp: PostfixEvent_init_def exc_bind_def getitem_def strip_each_def
      split: sum.splits option.splits)


text \<open>
  C7: \<open>_set_fields\<close> appends the values of the \<open>to=\<close> tokens of a line, in order and with
  duplicates, to the recipients the record already holds; the event's \<open>message_to\<close> is
  that list with \<open><\<close> and \<open>>\<close> stripped from both ends of every address (an address in
  one pair of angle brackets loses exactly that pair); \<open>domains_to\<close> is the list of their
  domains, deduplicated in first-seen order; and the domain of an address is what follows
  its first \<open>@\<close>, or the whole address when it has none.
\<close>

theorem recipients_and_domains:
  "(to_is_list e \<longrightarrow>
      (\<exists>e'. set_fields e tokens = (e', None) \<and>
         dict_get e' ''to'' =
           (if to_values tokens = [] then dict_get e ''to''
            else Some (StrList (to_list e @ to_values tokens))))) \<and>
   (PostfixEvent_init qid obj = Inr ev \<and> dict_get obj ''to'' = Some (StrList tos) \<longrightarrow>
      message_to ev = map (strip ''<>'') tos \<and>
      domains_to ev = first_seen (map get_domain (message_to ev)) \<and>
      distinct (domains_to ev) \<and>
      set (domains_to ev) = get_domain ` set (message_to ev)) \<and>
   (a \<noteq> [] \<and> hd a \<notin> set ''<>'' \<and> last a \<notin> set ''<>'' \<longrightarrow> strip ''<>'' (''<'' @ a @ ''>'') = a) \<and>
   (CHR ''@'' \<notin> set a \<longrightarrow> get_domain a = a \<and> get_domain (a @ ''@'' @ b) = b)"
proof -
  have 1: "\<exists>e'. set_fields e tokens = (e', None) \<and>
         dict_get e' ''to'' =
           (if to_values tokens = [] then dict_get e ''to''
            else Some (StrList (to_list e @ to_values tokens)))" if "to_is_list e"
    using set_fields_to [OF that, of tokens] by blast
  have 2: "message_to ev = map (strip ''<>'') tos \<and>
      domains_to ev = first_seen (map get_domain (message_to ev)) \<and>
      distinct (domains_to ev) \<and>
      set (domains_to ev) = get_domain ` set (message_to ev)"
    if "PostfixEvent_init qid obj = Inr ev" "dict_get obj ''to'' = Some (StrList tos)"
    using PostfixEvent_init_to [OF that]
    by (auto simp: fromkeys_first_seen distinct_first_seen set_first_seen)
  have 3: "strip ''<>'' (''<'' @ a @ ''>'') = a"
    if "a \<noteq> [] \<and> hd a \<notin> set ''<>'' \<and> last a \<notin> set ''<>''"
    using that strip_brackets by blast
  have 4: "get_domain a = a \<and> get_domain (a @ ''@'' @ b) = b" if "CHR ''@'' \<notin> set a"
    using that get_domain_no_at get_domain_at by blast
  from 1 2 3 4 show ?thesis
    by blast
qed

theorem recipients_and_domains_witness:
  "to_is_list [(''to'', StrList [''<max1@localhost>''])] \<and>
   (\<exists>e'. set_fields [(''to'', StrList [''<max1@localhost>''])]
            [''to=<max2@localhost>,'', ''relay=mail.localhost[private/dovecot-lmtp],''] = (e', None) \<and>
      dict_get e' ''to'' = Some (StrList [''<max1@localhost>'', ''<max2@localhost>''])) \<and>
   (\<exists>ev. PostfixEvent_init ''1CC191002F0'' example_record = Inr ev \<and>
      message_to ev = [''max1@localhost'', ''max2@localhost''] \<and>
      domains_to ev = [''localhost'']) \<and>
   strip ''<>'' ''<max1>'' = ''max1'' \<and>
   get_domain ''max1'' = ''max1'' \<and> get_domain ''max1@localhost'' = ''localhost''"
proof -
  let ?e = "[(''to'', StrList [''<max1@localhost>''])]"
  let ?tokens = "[''to=<max2@localhost>,'', ''relay=mail.localhost[private/dovecot-lmtp],'']"
  let ?tos = "[''<max1@localhost>'', ''<max2@localhost>'']"
  have ok: "to_is_list ?e"
    by (simp add: to_is_list_def dict_get_def)
  have tv: "to_values ?tokens = [''<max2@localhost>'']" "to_list ?e = [''<max1@localhost>'']"
    by (simp_all add: to_values_def to_list_def dict_get_def startswith_def rstrip_def)
  have "\<not> isl (PostfixEvent_init ''1CC191002F0'' example_record)"
    by code_simp
  then obtain ev where ev: "PostfixEvent_init ''1CC191002F0'' example_record = Inr ev"
    by (cases "PostfixEvent_init ''1CC191002F0'' example_record") auto
  have to: "dict_get example_record ''to'' = Some (StrList ?tos)"
    by (simp add: example_record_def dict_get_def)
  have a: "''max1'' \<noteq> [] \<and> hd ''max1'' \<notin> set ''<>'' \<and> last ''max1'' \<notin> set ''<>''"
      "CHR ''@'' \<notin> set ''max1''"
    by simp_all
  have st: "map (strip ''<>'') ?tos = [''max1@localhost'', ''max2@localhost'']"
    by (simp add: strip_def lstrip_def rstrip_def)
  have fs: "first_seen (map get_domain [''max1@localhost'', ''max2@localhost'']) = [''localhost'']"
    by (simp add: get_domain_def split_once_def)
  from recipients_and_domains [of ?e ?tokens "''1CC191002F0''" example_record ev ?tos "''max1''" "''localhost''"]
    ok tv ev to a st fs
  show ?thesis
    by auto
qed

section \<open>The status description\<close>

lemma lstrip_all:
  "\<exists>n. s = replicate n c @ lstrip [c] s \<and> (lstrip [c] s = [] \<or> hd (lstrip [c] s) \<noteq> c)"
proof -
  let ?P = "\<lambda>x. x \<in> set [c]"
  have "takeWhile ?P s = replicate (length (takeWhile ?P s)) c"
    by (rule replicate_length_same [symmetric]) (auto dest: set_takeWhileD)
  then have "s = replicate (length (takeWhile ?P s)) c @ dropWhile ?P s"
    by (metis takeWhile_dropWhile_id)
  moreover have "dropWhile ?P s = [] \<or> hd (dropWhile ?P s) \<noteq> c"
    using hd_dropWhile [of ?P s] by auto
  ultimately show ?thesis
    unfolding lstrip_def by blast
qed

lemma rstrip_all:
  "\<exists>m. s = rstrip [c] s @ replicate m c \<and> (rstrip [c] s = [] \<or> last (rstrip [c] s) \<noteq> c)"
proof -
  from lstrip_all [of "rev s" c] obtain n where
    n: "rev s = replicate n c @ lstrip [c] (rev s)"
       "lstrip [c] (rev s) = [] \<or> hd (lstrip [c] (rev s)) \<noteq> c"
    by blast
  have r: "rstrip [c] s = rev (lstrip [c] (rev s))"
    by (simp add: rstrip_def lstrip_def)
  from n(1) have "rev (rev s) = rev (replicate n c @ lstrip [c] (rev s))"
    by simp
  then have "s = rstrip [c] s @ replicate n c"
    by (simp add: r)
  moreover from n(2) have "rstrip [c] s = [] \<or> last (rstrip [c] s) \<noteq> c"
    by (auto simp: r last_rev)
  ultimately show ?thesis by blast
qed

lemma rstrip_prefix_hd: "rstrip cs s \<noteq> [] \<Longrightarrow> hd (rstrip cs s) = hd s"
proof -
  assume ne: "rstrip cs s \<noteq> []"
  have "s = rev (dropWhile (\<lambda>c. c \<in> set cs) (rev s)) @ rev (takeWhile (\<lambda>c. c \<in> set cs) (rev s))"
    by (metis rev_append rev_rev_ident takeWhile_dropWhile_id)
  then have "\<exists>zs. s = rstrip cs s @ zs"
    unfolding rstrip_def by blast
  with ne show ?thesis
    by (metis hd_append2)
qed

lemma strip_parens_all:
  fixes s :: string
  defines "d \<equiv> rstrip '')'' (lstrip ''('' s)"
  shows "\<exists>n m. s = replicate n CHR ''('' @ d @ replicate m CHR '')'' \<and>
           (d = [] \<or> (hd d \<noteq> CHR ''('' \<and> last d \<noteq> CHR '')''))"
proof -
  from lstrip_all [of s "CHR ''(''"] obtain n where
    n: "s = replicate n CHR ''('' @ lstrip ''('' s"
       "lstrip ''('' s = [] \<or> hd (lstrip ''('' s) \<noteq> CHR ''(''"
    by blast
  from rstrip_all [of "lstrip ''('' s" "CHR '')''"] obtain m where
    m: "lstrip ''('' s = d @ replicate m CHR '')''" "d = [] \<or> last d \<noteq> CHR '')''"
    unfolding d_def by blast
  have "d = [] \<or> hd d \<noteq> CHR ''(''"
  proof (cases "d = []")
    case False
    then have "hd d = hd (lstrip ''('' s)"
      unfolding d_def by (rule rstrip_prefix_hd)
    moreover from False m(1) have "lstrip ''('' s \<noteq> []" by auto
    ultimately show ?thesis using n(2) by auto
  qed simp
  with n(1) m show ?thesis
    by (metis append_assoc)
qed

text \<open>
  C8, as the code has it: when the last token named \<open>status\<close> stands at an index
  \<open>i > 0\<close> of the line's tokens, \<open>_set_fields\<close> stores as \<open>status_description\<close> the
  tokens after it joined with single spaces, with every leading \<open>(\<close> and every trailing
  \<open>)\<close> removed: the join is the stored text between a run of \<open>(\<close> and a run of \<open>)\<close>,
  and the stored text neither begins with \<open>(\<close> nor ends with \<open>)\<close>.
\<close>

theorem status_description_strips_all_parens:
  assumes "to_is_list e" "0 < i" "i < length tokens" "startswith (tokens ! i) ''status=''"
    and "\<forall>t \<in> set (drop (Suc i) tokens). \<not> startswith t ''status=''"
  shows "\<exists>e' d n m. set_fields e tokens = (e', None) \<and>
           dict_get e' ''status_description'' = Some (Str d) \<and>
           d = rstrip '')'' (lstrip ''('' (join_sp (drop (Suc i) tokens))) \<and>
           join_sp (drop (Suc i) tokens) = replicate n CHR ''('' @ d @ replicate m CHR '')'' \<and>
           (d = [] \<or> (hd d \<noteq> CHR ''('' \<and> last d \<noteq> CHR '')''))"
proof -
  have "\<forall>j. i < j \<and> j < length tokens \<longrightarrow> \<not> startswith (tokens ! j) ''status=''"
  proof (intro allI impI)
    fix j assume j: "i < j \<and> j < length tokens"
    then have "tokens ! j = drop (Suc i) tokens ! (j - Suc i)" "j - Suc i < length (drop (Suc i) tokens)"
      by auto
    then have "tokens ! j \<in> set (drop (Suc i) tokens)"
      by (metis nth_mem)
    with assms(5) show "\<not> startswith (tokens ! j) ''status=''" by blast
  qed
  from set_fields_status_description [OF assms(1-4) this]
  obtain e' where "set_fields e tokens = (e', None)"
    "dict_get e' ''status_description'' =
       Some (Str (rstrip '')'' (lstrip ''('' (join_sp (drop (Suc i) tokens)))))"
    by blast
  with strip_parens_all [of "join_sp (drop (Suc i) tokens)"] show ?thesis
    by blast
qed

theorem status_description_strips_all_parens_witness:
  "to_is_list [] \<and>
   startswith ([''2024-04-09T20:25:02+03:00'', ''status=bounced'', ''(host'', ''said:'', ''550'', ''5.1.1'', ''(in'', ''reply))''] ! 1) ''status='' \<and>
   (\<exists>e'. set_fields [] [''2024-04-09T20:25:02+03:00'', ''status=bounced'', ''(host'', ''said:'', ''550'', ''5.1.1'', ''(in'', ''reply))''] = (e', None) \<and>
      dict_get e' ''status_description'' = Some (Str ''host said: 550 5.1.1 (in reply''))"
proof -
  let ?tokens = "[''2024-04-09T20:25:02+03:00'', ''status=bounced'', ''(host'', ''said:'', ''550'', ''5.1.1'', ''(in'', ''reply))'']"
  have h: "to_is_list []" "0 < (1::nat)" "1 < length ?tokens" "startswith (?tokens ! 1) ''status=''"
    "\<forall>t \<in> set (drop (Suc 1) ?tokens). \<not> startswith t ''status=''"
    by (simp_all add: to_is_list_def dict_get_def startswith_def)
  have "rstrip '')'' (lstrip ''('' (join_sp (drop (Suc 1) ?tokens))) = ''host said: 550 5.1.1 (in reply''"
    by (simp add: rstrip_def lstrip_def)
  with status_description_strips_all_parens [OF h] h(1,4) show ?thesis
    by auto
qed

text \<open>
  C8 as it is written removes one character on each side. For the bounce line whose text
  ends in \<open>reply))\<close> that would leave one \<open>)\<close>; the code removes both.
\<close>

theorem single_paren_counterexample:
  "dict_get (fst (set_fields [] [''2024-04-09T20:25:02+03:00'', ''status=bounced'', ''(host'', ''said:'', ''550'', ''5.1.1'', ''(in'', ''reply))'']))
      ''status_description'' = Some (Str ''host said: 550 5.1.1 (in reply'') \<and>
   butlast (tl (join_sp [''(host'', ''said:'', ''550'', ''5.1.1'', ''(in'', ''reply))''])) =
      ''host said: 550 5.1.1 (in reply)''"
  by code_simp

section \<open>Cross-correlation of sieve lines\<close>

lemma item_is_eq:
  "item_is tokens i s = (if i < length tokens then Inr (tokens ! i = s) else Inl IndexError)"
  by (simp add: item_is_def item_def exc_bind_def)

lemma sieve_line_True_iff:
  "sieve_line tokens = Inr True \<longleftrightarrow>
     9 \<le> length tokens \<and> tokens ! 4 = ''Info:'' \<and> tokens ! 5 = ''sieve:'' \<and>
     startswith (tokens ! 6) ''msgid='' \<and> tokens ! 7 = ''fileinto'' \<and> tokens ! 8 = ''action:''"
  by (auto simp: sieve_line_def py_and_def item_is_eq item_def exc_bind_def split: if_splits)

lemma sieve_line_short: "length tokens < 5 \<Longrightarrow> sieve_line tokens = Inl IndexError"
  by (simp add: sieve_line_def py_and_def item_is_eq exc_bind_def)

lemma sieve_line_not_info:
  "5 \<le> length tokens \<Longrightarrow> tokens ! 4 \<noteq> ''Info:'' \<Longrightarrow> sieve_line tokens = Inr False"
  by (simp add: sieve_line_def py_and_def item_is_eq exc_bind_def)

lemma msgid_value:
  assumes "startswith t ''msgid=''"
  shows "split_once CHR ''='' t ! Suc 0 = drop 6 t"
proof -
  have "t = take (length ''msgid='') t @ drop (length ''msgid='') t"
    by simp
  with assms obtain r where t: "t = ''msgid='' @ r"
    unfolding startswith_def by metis
  then have "split_once CHR ''='' t ! Suc 0 = r" and "drop 6 t = r"
    by (simp_all add: split_once_def)
  then show ?thesis by simp
qed

text \<open>
  C4, as the code has it: for a token list that matches the sieve pattern (at least nine
  tokens, \<open>Info:\<close>, \<open>sieve:\<close>, \<open>msgid=...\<close>, \<open>fileinto\<close>, \<open>action:\<close> at places 4 to 8),
  with the message id read from token 6 without its prefix \<open>msgid=\<close> and its last
  character, and the action the tokens from place 9 on joined with spaces:
  \<open>_handle_dovecot_case\<close> returns \<open>False\<close> and attaches the action to every open record
  whose \<open>message-id\<close> equals that id, in place; when no record matches the store is left as
  it is, and when exactly one matches only that record changes.
\<close>

theorem sieve_action_attached_to_every_match:
  assumes "9 \<le> length tokens" "tokens ! 4 = ''Info:''" "tokens ! 5 = ''sieve:''"
    and "startswith (tokens ! 6) ''msgid=''" "tokens ! 7 = ''fileinto''" "tokens ! 8 = ''action:''"
    and "msgid = butlast (drop 6 (tokens ! 6))" and "action = join_sp (drop 9 tokens)"
  shows "\<exists>st'. handle_dovecot_case tokens st = (st', Inr False) \<and>
           st' = map (\<lambda>(k, e). if dict_get e ''message-id'' = Some (Str msgid)
                               then (k, dict_set e ''dovecot_fileinto_action'' (Str action))
                               else (k, e)) st \<and>
           ((\<forall>kv \<in> set st. dict_get (snd kv) ''message-id'' \<noteq> Some (Str msgid)) \<longrightarrow> st' = st) \<and>
           (\<forall>i < length st.
              dict_get (snd (st ! i)) ''message-id'' = Some (Str msgid) \<and>
              (\<forall>j < length st. j \<noteq> i \<longrightarrow> dict_get (snd (st ! j)) ''message-id'' \<noteq> Some (Str msgid)) \<longrightarrow>
              st' = st[i := (fst (st ! i),
                             dict_set (snd (st ! i)) ''dovecot_fileinto_action'' (Str action))])"
proof -
  let ?f = "\<lambda>(k, e). if dict_get e ''message-id'' = Some (Str msgid)
                               then (k, dict_set e ''dovecot_fileinto_action'' (Str action))
                               else (k, e)"
  have f: "attach_action msgid action = ?f"
    by (auto simp: attach_action_def fun_eq_iff)
  from assms(1-6) have "sieve_line tokens = Inr True"
    by (simp add: sieve_line_True_iff)
  moreover from assms(4) have "split_once CHR ''='' (tokens ! 6) ! Suc 0 = drop 6 (tokens ! 6)"
    by (rule msgid_value)
  ultimately have "handle_dovecot_case tokens st = (map (attach_action msgid action) st, Inr False)"
    using assms(7,8) by (simp add: handle_dovecot_case_def Let_def)
  then have h: "handle_dovecot_case tokens st = (map ?f st, Inr False)"
    by (simp only: f)
  have none: "map ?f st = st"
    if "\<forall>kv \<in> set st. dict_get (snd kv) ''message-id'' \<noteq> Some (Str msgid)"
    using that by (induction st) auto
  have one: "map ?f st = st[i := (fst (st ! i),
                             dict_set (snd (st ! i)) ''dovecot_fileinto_action'' (Str action))]"
    if "i < length st" "dict_get (snd (st ! i)) ''message-id'' = Some (Str msgid)"
       "\<forall>j < length st. j \<noteq> i \<longrightarrow> dict_get (snd (st ! j)) ''message-id'' \<noteq> Some (Str msgid)"
    for i
  proof (rule nth_equalityI)
    show "length (map ?f st) = length (st[i := (fst (st ! i),
                             dict_set (snd (st ! i)) ''dovecot_fileinto_action'' (Str action))])"
      by simp
  next
    fix j assume "j < length (map ?f st)"
    then have j: "j < length st" by simp
    show "map ?f st ! j = st[i := (fst (st ! i),
                             dict_set (snd (st ! i)) ''dovecot_fileinto_action'' (Str action))] ! j"
    proof (cases "j = i")
      case True
      with that j show ?thesis
        by (simp add: case_prod_beta)
    next
      case False
      with that(3) j have "dict_get (snd (st ! j)) ''message-id'' \<noteq> Some (Str msgid)"
        by blast
      with False j show ?thesis
        by (simp add: case_prod_beta)
    qed
  qed
  from h none one show ?thesis
    by blast
qed

theorem sieve_action_attached_to_every_match_witness:
  "startswith ''msgid=<2cd16c85@vrufa.ru>:'' ''msgid='' \<and>
   handle_dovecot_case
     [''Apr'', ''30'', ''15:09:28'', ''lmtp(admin@localhost)<2799492><N2hLF3ff>:'', ''Info:'',
      ''sieve:'', ''msgid=<2cd16c85@vrufa.ru>:'', ''fileinto'', ''action:'', ''stored'', ''mail'',
      ''into'', ''mailbox'', ''Junk'']
     [(''DBC88100165'', [(''message-id'', Str ''<2cd16c85@vrufa.ru>'')]),
      (''E54DD102A90'', [(''message-id'', Str ''<c6817a87@gmail.com>'')])] =
   ([(''DBC88100165'', [(''message-id'', Str ''<2cd16c85@vrufa.ru>''),
                        (''dovecot_fileinto_action'', Str ''stored mail into mailbox Junk'')]),
     (''E54DD102A90'', [(''message-id'', Str ''<c6817a87@gmail.com>'')])], Inr False)"
proof -
  let ?tokens = "[''Apr'', ''30'', ''15:09:28'', ''lmtp(admin@localhost)<2799492><N2hLF3ff>:'', ''Info:'',
      ''sieve:'', ''msgid=<2cd16c85@vrufa.ru>:'', ''fileinto'', ''action:'', ''stored'', ''mail'',
      ''into'', ''mailbox'', ''Junk'']"
  let ?st = "[(''DBC88100165'', [(''message-id'', Str ''<2cd16c85@vrufa.ru>'')]),
      (''E54DD102A90'', [(''message-id'', Str ''<c6817a87@gmail.com>'')])]"
  have h: "9 \<le> length ?tokens" "?tokens ! 4 = ''Info:''" "?tokens ! 5 = ''sieve:''"
    "startswith (?tokens ! 6) ''msgid=''" "?tokens ! 7 = ''fileinto''" "?tokens ! 8 = ''action:''"
    "''<2cd16c85@vrufa.ru>'' = butlast (drop 6 (?tokens ! 6))"
    "''stored mail into mailbox Junk'' = join_sp (drop 9 ?tokens)"
    by (simp_all add: startswith_def)
  from sieve_action_attached_to_every_match [OF h, of ?st] h(4) show ?thesis
    by (simp add: dict_get_def)
qed


text \<open>
  C4 as it is written updates only the first of several matching records. Two open
  transactions carry the same message id here; the sieve line attaches its action to both.
\<close>

theorem first_match_only_counterexample:
  "(case feed_lines example_lib
     [(1714478967000000, ''2024-04-30T15:09:27+03:00 localhost postfix/cleanup[2799490]: DBC88100165: message-id=<2cd16c85@vrufa.ru>''),
      (1714478968000000, ''2024-04-30T15:09:28+03:00 localhost postfix/cleanup[2799495]: E54DD102A90: message-id=<2cd16c85@vrufa.ru>''),
      (1714478968000000, ''Apr 30 15:09:28 lmtp(admin@localhost)<2799492><N2hLF3ff>: Info: sieve: msgid=<2cd16c85@vrufa.ru>: fileinto action: stored mail into mailbox Junk'')]
     (PostfixLogParser_init 1714478960000000) of
    (p, r) \<Rightarrow> r = None \<and> map fst (state p) = [''DBC88100165'', ''E54DD102A90''] \<and>
      record_field p ''DBC88100165'' ''dovecot_fileinto_action'' = Some (Str ''stored mail into mailbox Junk'') \<and>
      record_field p ''E54DD102A90'' ''dovecot_fileinto_action'' = Some (Str ''stored mail into mailbox Junk''))"
  by code_simp


section \<open>Lines that are discarded\<close>

lemma cleanup_callbacks:
  "cleanup_old_entities ts p = (p1, r) \<Longrightarrow> events p1 = events p \<and> faults p1 = faults p"
  by (auto simp: cleanup_old_entities_def Let_def split: if_splits sum.splits)

lemma cleanup_not_due:
  "ts < next_cleanup p \<Longrightarrow> cleanup_old_entities ts p = (p, None)"
  by (simp add: cleanup_old_entities_def)

text \<open>
  C6, as the code has it. The sweep that opens every call runs no callback, and it leaves
  the parser as it is while the next sweep is not due. After it, a line of fewer than five
  tokens changes nothing; a line of five tokens or more whose sieve test ends without an
  IndexError and whose token 0 does not parse, or whose token 3 is no transaction id, runs
  no callback either and leaves the store as the sweep left it, except that a line matching
  the sieve pattern has its action attached to the records with its message id.
\<close>

theorem structurally_rejected_line:
  assumes "cleanup_old_entities ts p = (p1, None)" and "tokens = split_ws s"
  shows "events p1 = events p \<and> faults p1 = faults p \<and>
         (ts < next_cleanup p \<longrightarrow> p1 = p) \<and>
         (length tokens < 5 \<longrightarrow> feed_line L ts s p = (p1, None)) \<and>
         (5 \<le> length tokens \<and> sieve_line tokens = Inr b \<and>
            (fromisoformat L (tokens ! 0) = None \<or> \<not> is_queue_id (tokens ! 3)) \<longrightarrow>
            (b \<longleftrightarrow> 9 \<le> length tokens \<and> tokens ! 4 = ''Info:'' \<and> tokens ! 5 = ''sieve:'' \<and>
               startswith (tokens ! 6) ''msgid='' \<and> tokens ! 7 = ''fileinto'' \<and>
               tokens ! 8 = ''action:'') \<and>
            feed_line L ts s p =
              (p1\<lparr>state := if b then map (attach_action (butlast (drop 6 (tokens ! 6)))
                                       (join_sp (drop 9 tokens))) (state p1)
                              else state p1\<rparr>, None))"
proof -
  have 1: "events p1 = events p \<and> faults p1 = faults p"
    using assms(1) by (rule cleanup_callbacks)
  have 2: "p1 = p" if "ts < next_cleanup p"
    using cleanup_not_due [OF that] assms(1) by simp
  have 3: "feed_line L ts s p = (p1, None)" if "length tokens < 5"
    using that assms by (simp add: feed_line_def feed_line_body_def)
  have 4: "(b \<longleftrightarrow> 9 \<le> length tokens \<and> tokens ! 4 = ''Info:'' \<and> tokens ! 5 = ''sieve:'' \<and>
               startswith (tokens ! 6) ''msgid='' \<and> tokens ! 7 = ''fileinto'' \<and>
               tokens ! 8 = ''action:'') \<and>
            feed_line L ts s p =
              (p1\<lparr>state := if b then map (attach_action (butlast (drop 6 (tokens ! 6)))
                                       (join_sp (drop 9 tokens))) (state p1)
                              else state p1\<rparr>, None)"
    if h: "5 \<le> length tokens" "sieve_line tokens = Inr b"
       "fromisoformat L (tokens ! 0) = None \<or> \<not> is_queue_id (tokens ! 3)"
  proof (cases b)
    case True
    with h(2) have pat: "9 \<le> length tokens \<and> tokens ! 4 = ''Info:'' \<and> tokens ! 5 = ''sieve:'' \<and>
               startswith (tokens ! 6) ''msgid='' \<and> tokens ! 7 = ''fileinto'' \<and>
               tokens ! 8 = ''action:''"
      by (simp add: sieve_line_True_iff)
    then have "split_once CHR ''='' (tokens ! 6) ! Suc 0 = drop 6 (tokens ! 6)"
      by (simp add: msgid_value)
    with True h have "handle_dovecot_case tokens (state p1) =
        (map (attach_action (butlast (drop 6 (tokens ! 6))) (join_sp (drop 9 tokens))) (state p1),
         Inr False)"
      by (simp add: handle_dovecot_case_def Let_def)
    with True h pat assms show ?thesis
      by (auto simp: feed_line_def feed_line_body_def Let_def split: option.splits)
  next
    case False
    with h(2) have np: "\<not> (9 \<le> length tokens \<and> tokens ! 4 = ''Info:'' \<and> tokens ! 5 = ''sieve:'' \<and>
               startswith (tokens ! 6) ''msgid='' \<and> tokens ! 7 = ''fileinto'' \<and>
               tokens ! 8 = ''action:'')"
      using sieve_line_True_iff [of tokens] by auto
    from False h have "handle_dovecot_case tokens (state p1) = (state p1, Inr False)"
      by (simp add: handle_dovecot_case_def)
    with False h np assms show ?thesis
      by (auto simp: feed_line_def feed_line_body_def Let_def split: option.splits)
  qed
  from 1 2 3 4 show ?thesis
    by blast
qed

theorem structurally_rejected_line_witness:
  "cleanup_old_entities 1714478968000000 example_open_parser = (example_open_parser, None) \<and>
   length (split_ws ''LINE'') < 5 \<and>
   feed_line example_lib 1714478968000000 ''LINE'' example_open_parser = (example_open_parser, None) \<and>
   sieve_line (split_ws ''2024-04-09T20:25:02.134775+03:00 localhost fetchmail-all[2182112]: Please create: /var/lock/fetchmail'') = Inr False \<and>
   \<not> is_queue_id (split_ws ''2024-04-09T20:25:02.134775+03:00 localhost fetchmail-all[2182112]: Please create: /var/lock/fetchmail'' ! 3) \<and>
   feed_line example_lib 1714478968000000
     ''2024-04-09T20:25:02.134775+03:00 localhost fetchmail-all[2182112]: Please create: /var/lock/fetchmail''
     example_open_parser = (example_open_parser, None)"
proof -
  let ?s = "''2024-04-09T20:25:02.134775+03:00 localhost fetchmail-all[2182112]: Please create: /var/lock/fetchmail''"
  have h1: "cleanup_old_entities 1714478968000000 example_open_parser = (example_open_parser, None)"
    by (simp add: cleanup_old_entities_def example_open_parser_def)
  have a: "length (split_ws ''LINE'') < 5"
    by code_simp
  have tk: "split_ws ?s = [''2024-04-09T20:25:02.134775+03:00'', ''localhost'', ''fetchmail-all[2182112]:'', ''Please'', ''create:'', ''/var/lock/fetchmail'']"
    by code_simp
  have b: "5 \<le> length (split_ws ?s)" "sieve_line (split_ws ?s) = Inr False"
    "\<not> is_queue_id (split_ws ?s ! 3)"
    by (simp_all add: tk sieve_line_not_info is_queue_id_def)
  from structurally_rejected_line [OF h1 refl, of "''LINE''" example_lib False]
    structurally_rejected_line [OF h1 refl, of ?s example_lib False] h1 a b
  show ?thesis
    by simp
qed


text \<open>
  C6 as it is written promises that no callback runs, and that the store stays as it is,
  for a line that fails a structural check. The five-token line \<open>a b c d Info:\<close> has no
  timestamp in place 0 and no transaction id in place 3, and \<open>on_fault\<close> is called with an
  IndexError: the sieve test reads \<open>tokens[5]\<close>. The one-token line \<open>LINE\<close> (the line of
  the repository's cleanup test), fed when a sweep is due and the open record is 11
  minutes old, empties the store.
\<close>

theorem structural_reject_fault_counterexample:
  "fromisoformat example_lib ''a'' = None \<and> \<not> is_queue_id ''d'' \<and>
   feed_line example_lib 0 ''a b c d Info:'' (PostfixLogParser_init 0) =
     (\<lparr> state = [], next_cleanup = 60000000, events = [],
        faults = [(''a b c d Info:'', IndexError)] \<rparr>, None) \<and>
   length (split_ws ''LINE'') < 5 \<and>
   feed_line example_lib 1714479627000000 ''LINE'' example_open_parser =
     (example_open_parser\<lparr>next_cleanup := 1714479687000000, state := []\<rparr>, None)"
  by code_simp

section \<open>Finalization with a missing field\<close>









lemma feed_line_body_accepted:
  assumes "5 \<le> length (split_ws s)"
    and "handle_dovecot_case (split_ws s) (state p) = (st1, Inr False)"
    and "fromisoformat L (split_ws s ! 0) = Some t" "is_queue_id (split_ws s ! 3)"
    and "getitem (dict_setdefault st1 (butlast (split_ws s ! 3)) []) (butlast (split_ws s ! 3)) =
           Inr entry0"
    and "append_raw_log entry0 s = Inr entry1"
    and "entry2 = (if dict_get entry1 ''timestamp'' = None
                   then dict_set entry1 ''timestamp'' (DT t) else entry1)"
    and "p3 = p\<lparr>state := dict_set (dict_setdefault st1 (butlast (split_ws s ! 3)) [])
                              (butlast (split_ws s ! 3)) entry2\<rparr>"
  shows "feed_line_body L s p =
     (case handle_special_postfix_cases L (butlast (split_ws s ! 3)) (drop 4 (split_ws s)) p3 of
        (p4, Inl e) \<Rightarrow> (p4, Some e)
      | (p4, Inr True) \<Rightarrow> (p4, None)
      | (p4, Inr False) \<Rightarrow>
          (case set_fields entry2 (split_ws s) of
             (entry3, r) \<Rightarrow> (p4\<lparr>state := dict_set (state p4) (butlast (split_ws s ! 3)) entry3\<rparr>, r)))"
  using assms(1-6) unfolding assms(7,8)
  by (simp add: feed_line_body_def Let_def)


lemma example_open_parser_reached:
  "feed_line example_lib 1714478967000000
     ''2024-04-30T15:09:27+03:00 localhost postfix/smtpd[2799418]: DBC88100165: client=unknown[91.215.169.237]''
     (PostfixLogParser_init 1714478960000000) = (example_open_parser, None)"
  by code_simp




section \<open>The first-seen timestamp\<close>

text \<open>
  C9 at a failing input: the record of \<open>DBC88100165\<close> has its first-seen timestamp, and a
  later line for the same id whose status text holds the token \<open>timestamp=1714478968\<close> is
  accepted without a fault; \<open>_set_fields\<close> stores that token like any other field, and the
  record's timestamp is now the string \<open>1714478968\<close>.
\<close>

theorem timestamp_overwritten:
  "(case feed_line example_lib 1714478968000000
          ''2024-04-30T15:09:28+03:00 localhost postfix/smtp[2799491]: DBC88100165: to=<a@b.example>, relay=mx.b.example[192.0.2.1]:25, dsn=4.7.1, status=deferred (host mx.b.example[192.0.2.1] said: 451 4.7.1 Try again later timestamp=1714478968 (in reply to end of DATA command))''
          example_open_parser of
      (p, r) \<Rightarrow> r = None \<and> faults p = [] \<and>
        record_field example_open_parser ''DBC88100165'' ''timestamp'' =
          Some (DT (Aware 1714478967000000)) \<and>
        record_field p ''DBC88100165'' ''timestamp'' = Some (Str ''1714478968''))"
  by code_simp

text \<open>
  C10 at a failing input: after one accepted line whose status text holds a token
  \<open>timestamp=1714478968\<close> the record's timestamp is a string, not a datetime, and the next
  call of \<open>feed_line\<close> at which a sweep is due ends with a TypeError that leaves
  \<open>feed_line\<close>.
\<close>

theorem sweep_raises_on_overwritten_timestamp:
  "(case feed_line example_lib 1714478968000000
          ''2024-04-30T15:09:28+03:00 localhost postfix/smtp[2799491]: E54DD102A90: status=deferred (host mx.b.example[192.0.2.1] said: 451 4.7.1 Try again later timestamp=1714478968 (in reply to end of DATA command))''
          (PostfixLogParser_init 1714478960000000) of
      (p, r) \<Rightarrow> r = None \<and> faults p = [] \<and>
        record_field p ''E54DD102A90'' ''timestamp'' = Some (Str ''1714478968'') \<and>
        snd (feed_line example_lib 1714479020000000 ''LINE'' p) = Some TypeError)"
  by code_simp

section \<open>The eviction sweep\<close>


lemma keep_fresh_keys:
  "keep_fresh ts st = Inr st' \<Longrightarrow> fst ` set st' \<subseteq> fst ` set st"
proof (induction st arbitrary: st')
  case Nil
  then show ?case by simp
next
  case (Cons kv st)
  obtain k v where kv: "kv = (k, v)" by (cases kv)
  from Cons.prems obtain a r where a: "age ts v = Inr a" "keep_fresh ts st = Inr r"
      "st' = (if a < OLD_LOGS then (k, v) # r else r)"
    by (auto simp: kv exc_bind_def split: sum.splits)
  with Cons.IH [of r] show ?case
    by (auto simp: kv)
qed


lemma dovecot_keys: "handle_dovecot_case tokens st = (st', r) \<Longrightarrow> map fst st' = map fst st"
  by (auto simp: handle_dovecot_case_def Let_def attach_action_def
      split: sum.splits bool.splits)








text \<open>
  The store is a dict: its keys are distinct, and every call of \<open>feed_line\<close> keeps them so.
\<close>

lemma keep_fresh_distinct:
  "keep_fresh ts st = Inr st' \<Longrightarrow> distinct (map fst st) \<Longrightarrow> distinct (map fst st')"
proof (induction st arbitrary: st')
  case Nil
  then show ?case by simp
next
  case (Cons kv st)
  obtain k v where kv: "kv = (k, v)" by (cases kv)
  from Cons.prems(1) obtain a r where a: "keep_fresh ts st = Inr r"
      "st' = (if a < OLD_LOGS then (k, v) # r else r)"
    by (auto simp: kv exc_bind_def split: sum.splits)
  from Cons.IH [OF a(1)] Cons.prems(2) have "distinct (map fst r)" by simp
  moreover from keep_fresh_keys [OF a(1)] Cons.prems(2) have "k \<notin> fst ` set r"
    by (auto simp: kv)
  ultimately show ?case
    using a(2) by auto
qed

lemma cleanup_distinct:
  "cleanup_old_entities ts p = (p1, r) \<Longrightarrow> distinct (map fst (state p)) \<Longrightarrow>
   distinct (map fst (state p1))"
  by (auto simp: cleanup_old_entities_def Let_def split: if_splits sum.splits
      dest: keep_fresh_distinct)

lemma setdefault_distinct:
  "distinct (map fst d) \<Longrightarrow> distinct (map fst (dict_setdefault d k v))"
  by (auto simp: dict_setdefault_def dict_get_None_iff)

lemma dict_del_distinct: "distinct (map fst d) \<Longrightarrow> distinct (map fst (dict_del d k))"
  by (simp add: dict_del_def distinct_map_filter)

lemma try_to_parse_subject_distinct:
  assumes "try_to_parse_subject L qid tokens st = (st', r)" "distinct (map fst st)"
  shows "distinct (map fst st')"
proof (cases "st' = st")
  case True
  with assms show ?thesis by simp
next
  case False
  with assms(1) obtain subj r' where "set_record_field st qid ''subject'' (Str subj) = (st', r')"
    by (auto simp: try_to_parse_subject_def split: sum.splits bool.splits prod.splits option.splits)
  with assms(2) show ?thesis
    by (auto simp: set_record_field_def dict_set_distinct split: option.splits)
qed

lemma handle_special_distinct:
  assumes "handle_special_postfix_cases L qid tokens p = (p', r)" "distinct (map fst (state p))"
  shows "distinct (map fst (state p'))"
proof -
  from assms(1) have "state p' = state p \<or> state p' = dict_del (state p) qid \<or>
      (\<exists>r'. try_to_parse_subject L qid tokens (state p) = (state p', r'))"
    by (auto simp: handle_special_postfix_cases_def split: sum.splits bool.splits prod.splits)
  with assms(2) show ?thesis
    by (auto simp: dict_del_distinct dest: try_to_parse_subject_distinct)
qed

lemma feed_line_body_distinct:
  assumes "feed_line_body L s p = (p', r)" "distinct (map fst (state p))"
  shows "distinct (map fst (state p'))"
proof (cases "length (split_ws s) < 5")
  case True
  with assms show ?thesis
    by (simp add: feed_line_body_def)
next
  case False
  then have len: "5 \<le> length (split_ws s)" by simp
  obtain st1 r1 where hd: "handle_dovecot_case (split_ws s) (state p) = (st1, r1)"
    by (cases "handle_dovecot_case (split_ws s) (state p)")
  have d1: "distinct (map fst st1)"
    using dovecot_keys [OF hd] assms(2) by simp
  show ?thesis
  proof (cases "r1 = Inr False \<and> fromisoformat L (split_ws s ! 0) \<noteq> None \<and>
                is_queue_id (split_ws s ! 3)")
    case False
    with assms(1) hd \<open>\<not> length (split_ws s) < 5\<close> have "state p' = st1"
      by (auto simp: feed_line_body_def Let_def split: sum.splits bool.splits option.splits)
    with d1 show ?thesis by simp
  next
    case True
    then obtain t where acc: "r1 = Inr False" "fromisoformat L (split_ws s ! 0) = Some t"
        "is_queue_id (split_ws s ! 3)"
      by auto
    let ?qid = "butlast (split_ws s ! 3)"
    let ?st2 = "dict_setdefault st1 ?qid []"
    have d2: "distinct (map fst ?st2)"
      using d1 by (rule setdefault_distinct)
    show ?thesis
    proof (cases "getitem ?st2 ?qid")
      case (Inl e)
      with assms(1) len hd acc have "state p' = ?st2"
        by (auto simp: feed_line_body_def Let_def)
      with d2 show ?thesis by simp
    next
      case (Inr entry0)
      show ?thesis
      proof (cases "append_raw_log entry0 s")
        case (Inl e)
        with assms(1) len hd acc Inr have "state p' = ?st2"
          by (auto simp: feed_line_body_def Let_def)
        with d2 show ?thesis by simp
      next
        case ar: (Inr entry1)
        define entry2 where "entry2 = (if dict_get entry1 ''timestamp'' = None
                   then dict_set entry1 ''timestamp'' (DT t) else entry1)"
        define p3 where "p3 = p\<lparr>state := dict_set ?st2 ?qid entry2\<rparr>"
        obtain p4 r4 where hs: "handle_special_postfix_cases L ?qid (drop 4 (split_ws s)) p3 = (p4, r4)"
          by (cases "handle_special_postfix_cases L ?qid (drop 4 (split_ws s)) p3")
        obtain entry3 r5 where sf: "set_fields entry2 (split_ws s) = (entry3, r5)"
          by (cases "set_fields entry2 (split_ws s)")
        from feed_line_body_accepted [OF len hd [unfolded acc(1)] acc(2,3) Inr ar entry2_def p3_def]
          assms(1) hs sf
        have res: "state p' = state p4 \<or> state p' = dict_set (state p4) ?qid entry3"
          by (auto split: sum.splits bool.splits)
        have "distinct (map fst (state p3))"
          using d2 by (simp add: p3_def dict_set_distinct)
        with handle_special_distinct [OF hs] have "distinct (map fst (state p4))"
          by blast
        with res show ?thesis
          by (auto simp: dict_set_distinct)
      qed
    qed
  qed
qed

lemma feed_line_distinct:
  assumes "feed_line L ts s p = (p', r)" "distinct (map fst (state p))"
  shows "distinct (map fst (state p'))"
proof -
  obtain p1 r1 where c: "cleanup_old_entities ts p = (p1, r1)"
    by (cases "cleanup_old_entities ts p")
  from cleanup_distinct [OF c assms(2)] have d1: "distinct (map fst (state p1))" .
  obtain p2 r2 where b: "feed_line_body L s p1 = (p2, r2)"
    by (cases "feed_line_body L s p1")
  from feed_line_body_distinct [OF b d1] have "distinct (map fst (state p2))" .
  with assms(1) c b d1 show ?thesis
    by (auto simp: feed_line_def split: option.splits)
qed




end
